theory Spec2Isabelle
  imports Main
begin

section \<open>The HTTPS server's request handler (server.js)\<close>

text \<open>
  \<^verbatim>\<open>createServer(httpsOptions, async (req, res) => {
      try {
          const parsedUrl = parse(req.url, true);
          await handle(req, res, parsedUrl);
      } catch (err) {
          console.error('Error occurred handling', req.url, err);
          res.statusCode = 500;
          res.end('internal server error');
      }
  })\<close>

  \<open>parse\<close> (Node's url module) and \<open>handle\<close> (the framework's request handler) are not
  code of the repository: they are parameters. Either may throw. The response object is
  modelled by the operations performed on it, in order; \<open>handle\<close> reports the operations
  it performed and whether it threw. The handler is an async function: its outcome is
  that of its promise.
\<close>

datatype res_op = SetStatusCode nat | End string

datatype 'e outcome = Resolved | Rejected 'e

record 'e handled =
  res_ops :: "res_op list"
  console_errors :: "(string \<times> 'e) list"
  promise :: "'e outcome"

type_synonym ('e, 'u) url_parse = "string \<Rightarrow> bool \<Rightarrow> 'e + 'u"

type_synonym ('e, 'u) next_handle = "string \<Rightarrow> 'u \<Rightarrow> res_op list \<times> 'e option"

definition catch_handler :: "string \<Rightarrow> res_op list \<Rightarrow> 'e \<Rightarrow> 'e handled" where
  "catch_handler url ops err =
     \<lparr>res_ops = ops @ [SetStatusCode 500, End ''internal server error''],
      console_errors = [(url, err)],
      promise = Resolved\<rparr>"

definition requestHandler ::
    "('e, 'u) url_parse \<Rightarrow> ('e, 'u) next_handle \<Rightarrow> string \<Rightarrow> 'e handled" where
  "requestHandler parse handle url =
     (case parse url True of
        Inl err \<Rightarrow> catch_handler url [] err
      | Inr parsedUrl \<Rightarrow>
          (case handle url parsedUrl of
             (ops, Some err) \<Rightarrow> catch_handler url ops err
           | (ops, None) \<Rightarrow> \<lparr>res_ops = ops, console_errors = [], promise = Resolved\<rparr>))"

text \<open>Whether handling the request raised an exception inside the \<open>try\<close> block.\<close>

definition handling_throws :: "('e, 'u) url_parse \<Rightarrow> ('e, 'u) next_handle \<Rightarrow> string \<Rightarrow> bool" where
  "handling_throws parse handle url =
     (case parse url True of
        Inl err \<Rightarrow> True
      | Inr parsedUrl \<Rightarrow> snd (handle url parsedUrl) \<noteq> None)"


section \<open>The AR view component (components/ARScene.tsx)\<close>

subsection \<open>Data\<close>

text \<open>
  Every run of the effect creates one closure over the variables
  \<open>isMounted, renderer, scene, camera, arToolkitSource, arToolkitContext, animationFrameId\<close>;
  a session is one such closure, named by the position at which it was created.
\<close>

type_synonym sid = nat

datatype js_error = TypeError

text \<open>The two scripts of the tracking library, with the addresses they are fetched from.\<close>

datatype script = ArJs | ArThreexJs

fun script_src :: "script \<Rightarrow> string" where
  "script_src ArJs = ''https://cdn.jsdelivr.net/gh/AR-js-org/AR.js@3.4.5/three.js/build/ar.js''"
| "script_src ArThreexJs = ''https://cdn.jsdelivr.net/gh/AR-js-org/AR.js@3.4.5/three.js/build/ar-threex.js''"

text \<open>The global \<open>window.THREEx\<close>: which of the three entry points it holds.\<close>

record threex =
  has_ArToolkitContext :: bool
  has_ArToolkitSource :: bool
  has_ArMarkerControls :: bool

datatype log_msg = ScriptLoadError script | EntryPointsMissing | ModelLoadError

fun log_text :: "log_msg \<Rightarrow> string" where
  "log_text (ScriptLoadError sc) = ''Failed to load script: '' @ script_src sc"
| "log_text EntryPointsMissing = ''AR.js components on THREEx failed to load.''"
| "log_text ModelLoadError = ''An error happened:''"

text \<open>
  The effects of the component on its surroundings, in the order they happen. \<open>Render i sv cv\<close>
  is one call \<open>renderer.render(scene, camera)\<close> of session \<open>i\<close>, made while \<open>scene.visible\<close> is
  \<open>sv\<close> and \<open>camera.visible\<close> is \<open>cv\<close>.
\<close>

datatype action =
    AppendScript sid script
  | ConsoleError sid log_msg
  | SetAttribute sid
  | RemoveAttribute sid
  | SceneSetup sid
  | NewRenderer sid
  | NewSource sid
  | NewContext sid
  | SourceInit sid
  | AddResizeListener sid
  | ContextInit sid
  | NewMarkerControls sid
  | LoaderLoad sid
  | AddLights sid
  | CameraAcquired sid
  | SetTimeout sid
  | ResizeSource sid
  | CopySizeToRenderer sid
  | CopySizeToTrackingCanvas sid
  | CopyProjection sid
  | AddModel sid
  | RequestFrame sid nat
  | CancelFrame sid "nat option"
  | ContextUpdate sid
  | Render sid bool bool
  | TrackStop sid
  | RendererDispose sid
  | Uncaught sid js_error

text \<open>A media stream is the list of its tracks; a track is \<open>True\<close> while it is live.\<close>

type_synonym media_stream = "bool list"

record video_element =
  srcObject :: "media_stream option"

record ar_source =
  ready :: bool
  domElement :: "video_element option"

text \<open>\<open>arController\<close> is \<open>null\<close> (\<open>False\<close>) until the tracking context has initialised.\<close>

record ar_context =
  arController :: bool

record webgl_renderer =
  disposed :: bool

text \<open>Where the async function \<open>initAR\<close> of a session is suspended.\<close>

datatype suspension = AwaitScript1 | AwaitScript2 | Returned

text \<open>
  \<open>scene\<close> and \<open>camera\<close> hold the object's \<open>visible\<close> flag, \<open>markerRoot\<close> the number of models
  parented under the anchor group; \<open>None\<close> is a variable not yet assigned.
\<close>

record session =
  isMounted :: bool
  renderer :: "webgl_renderer option"
  scene :: "bool option"
  camera :: "bool option"
  arToolkitSource :: "ar_source option"
  arToolkitContext :: "ar_context option"
  animationFrameId :: "nat option"
  markerRoot :: "nat option"
  awaiting :: suspension
  loader_pending :: bool

text \<open>
  The browser around the sessions. \<open>canvasRef\<close> is \<open>canvasRef.current\<close>: \<open>None\<close> is
  \<open>null\<close>, \<open>Some a\<close> a canvas whose attribute \<open>data-initialized\<close> reads \<open>a\<close>.

  The tracking library is not part of the repository. Two things it decides are parameters
  of the world: \<open>lib_sync_ready\<close>, whether a tracking source already reports \<open>ready\<close> when
  \<open>init\<close> returns (AR.js acquires the webcam through a promise, so there it is \<open>False\<close>), and
  \<open>lib_detect\<close>, the value of \<open>camera.visible\<close> that the n-th call of
  \<open>arToolkitContext.update\<close> leaves behind.
\<close>

record world =
  has_window :: bool
  canvasRef :: "string option option"
  THREEx :: "threex option"
  sessions :: "session list"
  resize_listeners :: "sid list"
  raf_pending :: "(nat \<times> sid) list"
  next_raf :: nat
  timers :: "sid list"
  updates :: nat
  trace :: "action list"
  lib_sync_ready :: bool
  lib_detect :: "nat \<Rightarrow> bool"

definition world0 :: "bool \<Rightarrow> (nat \<Rightarrow> bool) \<Rightarrow> world" where
  "world0 sr det =
     \<lparr>has_window = True, canvasRef = Some None, THREEx = None, sessions = [],
      resize_listeners = [], raf_pending = [], next_raf = 1, timers = [], updates = 0,
      trace = [], lib_sync_ready = sr, lib_detect = det\<rparr>"

subsection \<open>Helpers\<close>

text \<open>JavaScript truthiness of what \<open>getAttribute\<close> returns: \<open>null\<close> and \<open>""\<close> are falsy.\<close>

definition truthy :: "string option \<Rightarrow> bool" where
  "truthy a = (case a of None \<Rightarrow> False | Some v \<Rightarrow> v \<noteq> [])"

definition emit :: "action list \<Rightarrow> world \<Rightarrow> world" where
  "emit as w = w\<lparr>trace := trace w @ as\<rparr>"

definition upd_session :: "sid \<Rightarrow> (session \<Rightarrow> session) \<Rightarrow> world \<Rightarrow> world" where
  "upd_session i f w = w\<lparr>sessions := (sessions w)[i := f (sessions w ! i)]\<rparr>"

text \<open>
  A callback either returns or throws; in both cases it leaves a world behind, the one it
  had reached. An exception that leaves a callback is reported and the event loop goes on.
\<close>

definition settle :: "sid \<Rightarrow> js_error \<times> world + world \<Rightarrow> world" where
  "settle i r = (case r of Inr w' \<Rightarrow> w' | Inl (e, w') \<Rightarrow> emit [Uncaught i e] w')"

definition new_session :: session where
  "new_session =
     \<lparr>isMounted = True, renderer = None, scene = None, camera = None,
      arToolkitSource = None, arToolkitContext = None, animationFrameId = None,
      markerRoot = None, awaiting = AwaitScript1, loader_pending = False\<rparr>"

subsection \<open>The render loop\<close>

text \<open>
  \<^verbatim>\<open>const animate = () => {
    if (!isMounted || !arToolkitSource.ready) return;
    animationFrameId = requestAnimationFrame(animate);
    arToolkitContext.update(arToolkitSource.domElement);
    scene.visible = camera.visible;
    renderer.render(scene, camera);
  };\<close>
\<close>

definition requestAnimationFrame :: "sid \<Rightarrow> world \<Rightarrow> world" where
  "requestAnimationFrame i w =
     emit [RequestFrame i (next_raf w)]
       (upd_session i (\<lambda>s. s\<lparr>animationFrameId := Some (next_raf w)\<rparr>)
          (w\<lparr>raf_pending := raf_pending w @ [(next_raf w, i)], next_raf := Suc (next_raf w)\<rparr>))"

definition context_update :: "sid \<Rightarrow> world \<Rightarrow> world" where
  "context_update i w =
     emit [ContextUpdate i]
       (upd_session i (\<lambda>s. s\<lparr>camera := map_option (\<lambda>v. lib_detect w (updates w)) (camera s)\<rparr>)
          (w\<lparr>updates := Suc (updates w)\<rparr>))"

definition render :: "sid \<Rightarrow> world \<Rightarrow> world" where
  "render i w =
     (case (scene (sessions w ! i), camera (sessions w ! i)) of
        (Some sv, Some cv) \<Rightarrow> emit [Render i sv cv] w
      | _ \<Rightarrow> w)"

text \<open>
  A variable of the closure that is still \<open>undefined\<close> makes the statement that reads a
  property of it throw a TypeError, with the effects of the statements before it in place.
\<close>

definition animate :: "sid \<Rightarrow> world \<Rightarrow> js_error \<times> world + world" where
  "animate i w =
     (if \<not> isMounted (sessions w ! i) then Inr w
      else case arToolkitSource (sessions w ! i) of
        None \<Rightarrow> Inl (TypeError, w)
      | Some src \<Rightarrow>
          if \<not> ready src then Inr w
          else
            (let w1 = requestAnimationFrame i w in
             case arToolkitContext (sessions w1 ! i) of
               None \<Rightarrow> Inl (TypeError, w1)
             | Some ctx \<Rightarrow>
                 (let w2 = context_update i w1 in
                  case camera (sessions w2 ! i) of
                    None \<Rightarrow> Inl (TypeError, w2)
                  | Some cv \<Rightarrow>
                      (case scene (sessions w2 ! i) of
                         None \<Rightarrow> Inl (TypeError, w2)
                       | Some sv \<Rightarrow>
                           (let w3 = upd_session i (\<lambda>s. s\<lparr>scene := Some cv\<rparr>) w2 in
                            case renderer (sessions w3 ! i) of
                              None \<Rightarrow> Inl (TypeError, w3)
                            | Some r \<Rightarrow> Inr (render i w3))))))"

subsection \<open>The resize handler\<close>

text \<open>
  \<^verbatim>\<open>const onResize = () => {
    arToolkitSource.onResizeElement();
    arToolkitSource.copyElementSizeTo(renderer.domElement);
    if (arToolkitContext?.arController !== null) {
      arToolkitSource.copyElementSizeTo(arToolkitContext.arController.canvas);
    }
  };\<close>
\<close>

definition onResize :: "sid \<Rightarrow> world \<Rightarrow> js_error \<times> world + world" where
  "onResize i w =
     (case arToolkitSource (sessions w ! i) of
        None \<Rightarrow> Inl (TypeError, w)
      | Some src \<Rightarrow>
          (let w1 = emit [ResizeSource i] w in
           case renderer (sessions w1 ! i) of
             None \<Rightarrow> Inl (TypeError, w1)
           | Some r \<Rightarrow>
               (let w2 = emit [CopySizeToRenderer i] w1 in
                case arToolkitContext (sessions w2 ! i) of
                  None \<Rightarrow> Inl (TypeError, w2)
                | Some ctx \<Rightarrow>
                    if arController ctx then Inr (emit [CopySizeToTrackingCanvas i] w2)
                    else Inr w2)))"

subsection \<open>What the tracking library calls back\<close>

text \<open>
  The source is ready: the library has attached the camera stream to its video element and
  set \<open>ready\<close>; then it calls \<^verbatim>\<open>() => setTimeout(onResize, 500)\<close>.
\<close>

definition source_ready :: "sid \<Rightarrow> world \<Rightarrow> world" where
  "source_ready i w =
     emit [CameraAcquired i, SetTimeout i]
       (upd_session i
          (\<lambda>s. s\<lparr>arToolkitSource :=
                   map_option (\<lambda>src. src\<lparr>ready := True, domElement := Some \<lparr>srcObject = Some [True]\<rparr>\<rparr>)
                     (arToolkitSource s)\<rparr>)
          (w\<lparr>timers := timers w @ [i]\<rparr>))"

text \<open>
  The context is initialised: \<open>arController\<close> is set, and the library calls
  \<^verbatim>\<open>() => { camera.projectionMatrix.copy(arToolkitContext.getProjectionMatrix()); }\<close>.
\<close>

definition context_ready :: "sid \<Rightarrow> world \<Rightarrow> world" where
  "context_ready i w =
     emit [CopyProjection i]
       (upd_session i
          (\<lambda>s. s\<lparr>arToolkitContext := map_option (\<lambda>c. c\<lparr>arController := True\<rparr>) (arToolkitContext s)\<rparr>)
          w)"

text \<open>
  \<^verbatim>\<open>loader.load('/my-model.glb', (gltf) => {
    const model = gltf.scene;
    model.scale.set(0.1, 0.1, 0.1);
    model.position.y = 0.5;
    markerRoot.add(model);
  }, undefined, (error) => console.error('An error happened:', error));\<close>
\<close>

definition model_loaded :: "sid \<Rightarrow> world \<Rightarrow> world" where
  "model_loaded i w =
     emit [AddModel i]
       (upd_session i (\<lambda>s. s\<lparr>markerRoot := map_option Suc (markerRoot s), loader_pending := False\<rparr>) w)"

definition model_failed :: "sid \<Rightarrow> world \<Rightarrow> world" where
  "model_failed i w =
     emit [ConsoleError i ModelLoadError] (upd_session i (\<lambda>s. s\<lparr>loader_pending := False\<rparr>) w)"

subsection \<open>Mount: the effect and initAR\<close>

text \<open>
  \<^verbatim>\<open>const loadScript = (src) => new Promise((resolve, reject) => {
    const script = document.createElement('script');
    script.src = src;
    script.onload = () => resolve();
    script.onerror = (err) => reject(new Error(`Failed to load script: ${src}`));
    document.head.appendChild(script);
  });\<close>
\<close>

definition loadScript :: "sid \<Rightarrow> script \<Rightarrow> world \<Rightarrow> world" where
  "loadScript i sc w = emit [AppendScript i sc] w"

text \<open>
  The effect, up to the first \<open>await\<close> of \<open>initAR\<close>:
  \<^verbatim>\<open>if (typeof window === 'undefined' || !canvasRef.current) return;
  if (canvasRef.current.getAttribute('data-initialized')) { return; }
  let isMounted = true; let renderer; ...
  initAR();   // await loadScript(ar.js)\<close>
\<close>

definition useEffect :: "world \<Rightarrow> world" where
  "useEffect w =
     (if \<not> has_window w then w
      else case canvasRef w of
        None \<Rightarrow> w
      | Some attr \<Rightarrow>
          if truthy attr then w
          else loadScript (length (sessions w)) ArJs (w\<lparr>sessions := sessions w @ [new_session]\<rparr>))"

definition entry_points_ok :: "threex option \<Rightarrow> bool" where
  "entry_points_ok g =
     (case g of
        None \<Rightarrow> False
      | Some t \<Rightarrow> has_ArToolkitContext t \<and> has_ArToolkitSource t \<and> has_ArMarkerControls t)"

text \<open>The statements of \<open>initAR\<close> from line 96 on, one definition for each group.\<close>

definition mark_initialized :: "sid \<Rightarrow> world \<Rightarrow> world" where
  "mark_initialized i w = emit [SetAttribute i] (w\<lparr>canvasRef := Some (Some ''true'')\<rparr>)"

definition scene_setup :: "sid \<Rightarrow> world \<Rightarrow> world" where
  "scene_setup i w =
     emit [SceneSetup i] (upd_session i (\<lambda>s. s\<lparr>scene := Some True, camera := Some True\<rparr>) w)"

definition renderer_setup :: "sid \<Rightarrow> world \<Rightarrow> world" where
  "renderer_setup i w =
     emit [NewRenderer i] (upd_session i (\<lambda>s. s\<lparr>renderer := Some \<lparr>disposed = False\<rparr>\<rparr>) w)"

definition tracking_setup :: "sid \<Rightarrow> world \<Rightarrow> world" where
  "tracking_setup i w =
     emit [NewSource i, NewContext i]
       (upd_session i
          (\<lambda>s. s\<lparr>arToolkitSource := Some \<lparr>ready = False, domElement = None\<rparr>,
                 arToolkitContext := Some \<lparr>arController = False\<rparr>\<rparr>) w)"

definition source_init :: "sid \<Rightarrow> world \<Rightarrow> world" where
  "source_init i w =
     (let w1 = emit [SourceInit i]
                 (upd_session i
                    (\<lambda>s. s\<lparr>arToolkitSource :=
                             map_option (\<lambda>src. src\<lparr>domElement := Some \<lparr>srcObject = None\<rparr>\<rparr>)
                               (arToolkitSource s)\<rparr>) w)
      in if lib_sync_ready w then source_ready i w1 else w1)"

definition add_resize_listener :: "sid \<Rightarrow> world \<Rightarrow> world" where
  "add_resize_listener i w =
     emit [AddResizeListener i] (w\<lparr>resize_listeners := resize_listeners w @ [i]\<rparr>)"

definition context_init :: "sid \<Rightarrow> world \<Rightarrow> world" where
  "context_init i w = emit [ContextInit i] w"

definition marker_setup :: "sid \<Rightarrow> world \<Rightarrow> world" where
  "marker_setup i w =
     emit [NewMarkerControls i] (upd_session i (\<lambda>s. s\<lparr>markerRoot := Some 0\<rparr>) w)"

definition load_model :: "sid \<Rightarrow> world \<Rightarrow> world" where
  "load_model i w = emit [LoaderLoad i] (upd_session i (\<lambda>s. s\<lparr>loader_pending := True\<rparr>) w)"

definition add_lights :: "sid \<Rightarrow> world \<Rightarrow> world" where
  "add_lights i w = emit [AddLights i] w"

definition construct :: "sid \<Rightarrow> world \<Rightarrow> world" where
  "construct i w =
     add_lights i (load_model i (marker_setup i (context_init i (add_resize_listener i
       (source_init i (tracking_setup i (renderer_setup i (scene_setup i w))))))))"

text \<open>
  \<open>initAR\<close> after both scripts have loaded (lines 86 to 165):
  \<^verbatim>\<open>if (!isMounted || !canvasRef.current) return;
  const THREEx = (window as any).THREEx;
  if (!THREEx?.ArToolkitContext || !THREEx?.ArToolkitSource || !THREEx?.ArMarkerControls) {
    console.error('AR.js components on THREEx failed to load.');
    return;
  }
  canvasRef.current.setAttribute('data-initialized', 'true');
  ...
  animate();\<close>
\<close>

definition initAR_resume :: "sid \<Rightarrow> world \<Rightarrow> world" where
  "initAR_resume i w =
     (let w1 = upd_session i (\<lambda>s. s\<lparr>awaiting := Returned\<rparr>) w in
      if \<not> isMounted (sessions w ! i) \<or> canvasRef w = None then w1
      else if \<not> entry_points_ok (THREEx w) then emit [ConsoleError i EntryPointsMissing] w1
      else let w2 = construct i (mark_initialized i w1) in settle i (animate i w2))"

text \<open>
  A script has loaded: \<open>onload\<close> resolves the promise and \<open>initAR\<close> goes on, to the second
  script or past the \<open>try\<close> block.
  \<^verbatim>\<open>try {
    await loadScript('.../ar.js');
    await loadScript('.../ar-threex.js');
  } catch (error) {
    console.error(error);
    return;
  }\<close>
\<close>

definition script_loaded :: "sid \<Rightarrow> world \<Rightarrow> world" where
  "script_loaded i w =
     (case awaiting (sessions w ! i) of
        AwaitScript1 \<Rightarrow> loadScript i ArThreexJs (upd_session i (\<lambda>s. s\<lparr>awaiting := AwaitScript2\<rparr>) w)
      | AwaitScript2 \<Rightarrow> initAR_resume i w
      | Returned \<Rightarrow> w)"

definition script_failed :: "sid \<Rightarrow> world \<Rightarrow> world" where
  "script_failed i w =
     (case awaiting (sessions w ! i) of
        AwaitScript1 \<Rightarrow>
          emit [ConsoleError i (ScriptLoadError ArJs)] (upd_session i (\<lambda>s. s\<lparr>awaiting := Returned\<rparr>) w)
      | AwaitScript2 \<Rightarrow>
          emit [ConsoleError i (ScriptLoadError ArThreexJs)] (upd_session i (\<lambda>s. s\<lparr>awaiting := Returned\<rparr>) w)
      | Returned \<Rightarrow> w)"

subsection \<open>Unmount: the cleanup function\<close>

text \<open>
  \<^verbatim>\<open>return () => {
    isMounted = false;
    cancelAnimationFrame(animationFrameId);
    const video = arToolkitSource?.domElement;
    if (video?.srcObject) {
      (video.srcObject as MediaStream).getTracks().forEach((track) => track.stop());
    }
    renderer?.dispose();
    canvasRef.current?.removeAttribute('data-initialized');
  };\<close>
  \<open>cancelAnimationFrame(undefined)\<close> cancels handle 0, which no request ever has.
\<close>

definition cancelAnimationFrame :: "sid \<Rightarrow> nat option \<Rightarrow> world \<Rightarrow> world" where
  "cancelAnimationFrame i h w =
     emit [CancelFrame i h]
       (w\<lparr>raf_pending := filter (\<lambda>p. fst p \<noteq> (case h of None \<Rightarrow> 0 | Some n \<Rightarrow> n)) (raf_pending w)\<rparr>)"

definition stop_tracks :: "ar_source \<Rightarrow> ar_source" where
  "stop_tracks src =
     (case domElement src of
        None \<Rightarrow> src
      | Some video \<Rightarrow>
          (case srcObject video of
             None \<Rightarrow> src
           | Some tracks \<Rightarrow> src\<lparr>domElement := Some (video\<lparr>srcObject := Some (map (\<lambda>t. False) tracks)\<rparr>)\<rparr>))"

definition stop_webcam :: "sid \<Rightarrow> world \<Rightarrow> world" where
  "stop_webcam i w =
     (case arToolkitSource (sessions w ! i) of
        None \<Rightarrow> w
      | Some src \<Rightarrow>
          (case domElement src of
             None \<Rightarrow> w
           | Some video \<Rightarrow>
               (case srcObject video of
                  None \<Rightarrow> w
                | Some tracks \<Rightarrow>
                    emit (map (\<lambda>t. TrackStop i) tracks)
                      (upd_session i (\<lambda>s. s\<lparr>arToolkitSource := Some (stop_tracks src)\<rparr>) w))))"

definition dispose_renderer :: "sid \<Rightarrow> world \<Rightarrow> world" where
  "dispose_renderer i w =
     (case renderer (sessions w ! i) of
        None \<Rightarrow> w
      | Some r \<Rightarrow>
          emit [RendererDispose i] (upd_session i (\<lambda>s. s\<lparr>renderer := Some (r\<lparr>disposed := True\<rparr>)\<rparr>) w))"

definition remove_marker :: "sid \<Rightarrow> world \<Rightarrow> world" where
  "remove_marker i w =
     (case canvasRef w of
        None \<Rightarrow> w
      | Some attr \<Rightarrow> emit [RemoveAttribute i] (w\<lparr>canvasRef := Some None\<rparr>))"

definition cleanup :: "sid \<Rightarrow> world \<Rightarrow> js_error \<times> world + world" where
  "cleanup i w =
     (let w1 = upd_session i (\<lambda>s. s\<lparr>isMounted := False\<rparr>) w;
          w2 = cancelAnimationFrame i (animationFrameId (sessions w1 ! i)) w1
      in Inr (remove_marker i (dispose_renderer i (stop_webcam i w2))))"

subsection \<open>The event loop\<close>

text \<open>
  What the surroundings can do to the component. An event that is not enabled (a session that
  does not exist, a load that is not pending, a frame that is not scheduled) changes nothing.
  \<open>ScriptLoaded i g\<close>: the script session \<open>i\<close> waits for has run, leaving \<open>window.THREEx\<close> as
  \<open>g\<close>, and its \<open>onload\<close> fires.
\<close>

datatype event =
    Mount
  | Unmount sid
  | ScriptLoaded sid "threex option"
  | ScriptFailed sid
  | SourceReady sid
  | ContextReady sid
  | ModelLoaded sid
  | ModelFailed sid
  | Frame nat
  | Timeout sid
  | Resize

definition source_pending :: "session \<Rightarrow> bool" where
  "source_pending s =
     (case arToolkitSource s of
        None \<Rightarrow> False
      | Some src \<Rightarrow> domElement src \<noteq> None \<and> \<not> ready src)"

definition context_pending :: "session \<Rightarrow> bool" where
  "context_pending s =
     (case arToolkitContext s of None \<Rightarrow> False | Some c \<Rightarrow> \<not> arController c)"

fun step :: "event \<Rightarrow> world \<Rightarrow> world" where
  "step Mount w = useEffect w"
| "step (Unmount i) w =
     (if i < length (sessions w) then settle i (cleanup i w) else w)"
| "step (ScriptLoaded i g) w =
     (if i < length (sessions w) \<and> awaiting (sessions w ! i) \<noteq> Returned
      then script_loaded i (w\<lparr>THREEx := g\<rparr>) else w)"
| "step (ScriptFailed i) w =
     (if i < length (sessions w) then script_failed i w else w)"
| "step (SourceReady i) w =
     (if i < length (sessions w) \<and> source_pending (sessions w ! i) then source_ready i w else w)"
| "step (ContextReady i) w =
     (if i < length (sessions w) \<and> context_pending (sessions w ! i) then context_ready i w else w)"
| "step (ModelLoaded i) w =
     (if i < length (sessions w) \<and> loader_pending (sessions w ! i) then model_loaded i w else w)"
| "step (ModelFailed i) w =
     (if i < length (sessions w) \<and> loader_pending (sessions w ! i) then model_failed i w else w)"
| "step (Frame h) w =
     (case map_of (raf_pending w) h of
        None \<Rightarrow> w
      | Some i \<Rightarrow>
          (let w1 = w\<lparr>raf_pending := filter (\<lambda>p. fst p \<noteq> h) (raf_pending w)\<rparr>
           in if i < length (sessions w) then settle i (animate i w1) else w1))"
| "step (Timeout i) w =
     (if i \<in> set (timers w) \<and> i < length (sessions w)
      then (let w1 = w\<lparr>timers := remove1 i (timers w)\<rparr> in settle i (onResize i w1))
      else w)"
| "step Resize w =
     fold (\<lambda>i w'. if i < length (sessions w') then settle i (onResize i w') else w')
       (resize_listeners w) w"

fun run :: "event list \<Rightarrow> world \<Rightarrow> world" where
  "run [] w = w"
| "run (e # es) w = run es (step e w)"


section \<open>Vocabulary of the properties\<close>

text \<open>A tracking library with all three entry points, and two behaviours of its detection.\<close>

definition full_threex :: "threex option" where
  "full_threex =
     Some \<lparr>has_ArToolkitContext = True, has_ArToolkitSource = True, has_ArMarkerControls = True\<rparr>"

definition detect_always :: "nat \<Rightarrow> bool" where
  "detect_always n = True"

definition detect_odd :: "nat \<Rightarrow> bool" where
  "detect_odd n = odd n"

text \<open>What one event adds to the trace.\<close>

definition emitted :: "event \<Rightarrow> world \<Rightarrow> action list" where
  "emitted e w = drop (length (trace w)) (trace (step e w))"

text \<open>A render call mirrors the detection state when it is made with equal visibilities.\<close>

fun mirrors :: "action \<Rightarrow> bool" where
  "mirrors (Render i sv cv) = (sv = cv)"
| "mirrors _ = True"

fun is_render :: "action \<Rightarrow> bool" where
  "is_render (Render i sv cv) = True"
| "is_render _ = False"

text \<open>The resources of a session that unmount has to release.\<close>

definition live_tracks :: "session \<Rightarrow> nat" where
  "live_tracks s =
     (case arToolkitSource s of
        None \<Rightarrow> 0
      | Some src \<Rightarrow>
          (case domElement src of
             None \<Rightarrow> 0
           | Some video \<Rightarrow>
               (case srcObject video of
                  None \<Rightarrow> 0
                | Some tracks \<Rightarrow> length (filter (\<lambda>t. t) tracks))))"

definition frame_scheduled :: "sid \<Rightarrow> world \<Rightarrow> bool" where
  "frame_scheduled i w = (i \<in> set (map snd (raf_pending w)))"

definition renderer_released :: "session \<Rightarrow> bool" where
  "renderer_released s = (case renderer s of None \<Rightarrow> True | Some r \<Rightarrow> disposed r)"

definition released :: "sid \<Rightarrow> world \<Rightarrow> bool" where
  "released i w =
     (\<not> isMounted (sessions w ! i) \<and> live_tracks (sessions w ! i) = 0
      \<and> \<not> frame_scheduled i w \<and> renderer_released (sessions w ! i))"

definition marker_clear :: "world \<Rightarrow> bool" where
  "marker_clear w = (case canvasRef w of None \<Rightarrow> True | Some a \<Rightarrow> a = None)"

text \<open>
  Every scheduled frame callback belongs to an existing session whose \<open>animationFrameId\<close> is
  its handle, and a session that still loads its scripts has requested no frame.
\<close>

definition frames_owned :: "world \<Rightarrow> bool" where
  "frames_owned w =
     (list_all (\<lambda>p. snd p < length (sessions w)
                   \<and> animationFrameId (sessions w ! snd p) = Some (fst p)) (raf_pending w)
      \<and> (\<forall>j < length (sessions w).
             awaiting (sessions w ! j) = Returned \<or> animationFrameId (sessions w ! j) = None))"

text \<open>
  A session is retired when everything is released and no camera request is in flight.
\<close>

definition retired :: "sid \<Rightarrow> world \<Rightarrow> bool" where
  "retired i w = (i < length (sessions w) \<and> released i w \<and> \<not> source_pending (sessions w ! i))"


text \<open>
  The actions by which a session initialises itself (requesting a script, marking the
  surface, and the steps (b) to (j) of the sequence), and the session an action belongs to.
\<close>

fun init_action :: "action \<Rightarrow> bool" where
  "init_action (AppendScript i sc) = True"
| "init_action (SetAttribute i) = True"
| "init_action (SceneSetup i) = True"
| "init_action (NewRenderer i) = True"
| "init_action (NewSource i) = True"
| "init_action (NewContext i) = True"
| "init_action (SourceInit i) = True"
| "init_action (AddResizeListener i) = True"
| "init_action (ContextInit i) = True"
| "init_action (NewMarkerControls i) = True"
| "init_action (LoaderLoad i) = True"
| "init_action (AddLights i) = True"
| "init_action _ = False"

fun actor :: "action \<Rightarrow> sid" where
  "actor (AppendScript i sc) = i"
| "actor (ConsoleError i m) = i"
| "actor (SetAttribute i) = i"
| "actor (RemoveAttribute i) = i"
| "actor (SceneSetup i) = i"
| "actor (NewRenderer i) = i"
| "actor (NewSource i) = i"
| "actor (NewContext i) = i"
| "actor (SourceInit i) = i"
| "actor (AddResizeListener i) = i"
| "actor (ContextInit i) = i"
| "actor (NewMarkerControls i) = i"
| "actor (LoaderLoad i) = i"
| "actor (AddLights i) = i"
| "actor (CameraAcquired i) = i"
| "actor (SetTimeout i) = i"
| "actor (ResizeSource i) = i"
| "actor (CopySizeToRenderer i) = i"
| "actor (CopySizeToTrackingCanvas i) = i"
| "actor (CopyProjection i) = i"
| "actor (AddModel i) = i"
| "actor (RequestFrame i h) = i"
| "actor (CancelFrame i h) = i"
| "actor (ContextUpdate i) = i"
| "actor (Render i sv cv) = i"
| "actor (TrackStop i) = i"
| "actor (RendererDispose i) = i"
| "actor (Uncaught i e) = i"

definition quiet :: "action \<Rightarrow> bool" where
  "quiet a = (\<not> init_action a)"

definition initializes :: "sid \<Rightarrow> action \<Rightarrow> bool" where
  "initializes i a = (init_action a \<and> actor a = i)"

definition construct_actions :: "bool \<Rightarrow> sid \<Rightarrow> action list" where
  "construct_actions sr i =
     [SceneSetup i, NewRenderer i, NewSource i, NewContext i, SourceInit i]
     @ (if sr then [CameraAcquired i, SetTimeout i] else [])
     @ [AddResizeListener i, ContextInit i, NewMarkerControls i, LoaderLoad i, AddLights i]"

definition steps_b_to_j :: "sid \<Rightarrow> action list" where
  "steps_b_to_j i = construct_actions False i"

text \<open>
  The ordering C4 asks for, on a trace: when session \<open>i\<close> marks the surface, all of its steps
  (b) to (j) come before the mark.
\<close>

definition marked_after_steps :: "sid \<Rightarrow> action list \<Rightarrow> bool" where
  "marked_after_steps i tr =
     (SetAttribute i \<notin> set tr
      \<or> list_all (\<lambda>a. a \<in> set (takeWhile (\<lambda>x. x \<noteq> SetAttribute i) tr)) (steps_b_to_j i))"

text \<open>Sessions never lose the state \<open>Returned\<close>; sessions are never mounted again.\<close>

definition keeps_returned :: "world \<Rightarrow> world \<Rightarrow> bool" where
  "keeps_returned w w' =
     (length (sessions w) \<le> length (sessions w')
      \<and> (\<forall>j < length (sessions w).
            awaiting (sessions w ! j) = Returned \<longrightarrow> awaiting (sessions w' ! j) = Returned))"






text \<open>A successful load of both scripts by the first session, and the idle render loop.\<close>

definition load_ok :: "event list" where
  "load_ok = [Mount, ScriptLoaded 0 full_threex, ScriptLoaded 0 full_threex]"

definition idle :: "world \<Rightarrow> bool" where
  "idle w = (\<not> lib_sync_ready w \<and> raf_pending w = [] \<and> \<not> list_ex is_render (trace w))"


text \<open>
  A session is built when the five variables that \<open>animate\<close> and \<open>onResize\<close> read are
  assigned. In a wired world every session that has a tracking source is built, every
  session with a resize listener, a timer or a scheduled frame exists and is built, and no
  callback has thrown.
\<close>

definition built :: "session \<Rightarrow> bool" where
  "built s =
     (renderer s \<noteq> None \<and> scene s \<noteq> None \<and> camera s \<noteq> None
      \<and> arToolkitSource s \<noteq> None \<and> arToolkitContext s \<noteq> None)"

fun is_uncaught :: "action \<Rightarrow> bool" where
  "is_uncaught (Uncaught i e) = True"
| "is_uncaught _ = False"

definition wired :: "world \<Rightarrow> bool" where
  "wired w =
     ((\<forall>j < length (sessions w).
          arToolkitSource (sessions w ! j) \<noteq> None \<longrightarrow> built (sessions w ! j))
      \<and> list_all (\<lambda>i. i < length (sessions w) \<and> built (sessions w ! i))
           (resize_listeners w @ timers w @ map snd (raf_pending w))
      \<and> \<not> list_ex is_uncaught (trace w))"


section \<open>The server: exceptions become a 500 response\<close>

text \<open>
  C9. For every request, the promise of the handler resolves: no exception leaves it. When
  parsing the URL or the framework's handler throws, the error is logged and the last two
  operations on the response are \<open>statusCode = 500\<close> and \<open>end('internal server error')\<close>.
\<close>

theorem requestHandler_catches:
  "promise (requestHandler parse handle url) = Resolved \<and>
   (handling_throws parse handle url \<longrightarrow>
      (\<exists>ops err. res_ops (requestHandler parse handle url)
                   = ops @ [SetStatusCode 500, End ''internal server error'']
                \<and> console_errors (requestHandler parse handle url) = [(url, err)]))"
  by (auto simp: requestHandler_def handling_throws_def catch_handler_def
           split: sum.splits prod.splits option.splits)

theorem requestHandler_catches_witness:
  "handling_throws (\<lambda>u b. Inr u) (\<lambda>u p. ([], Some ''boom'')) ''/index''
   \<and> res_ops (requestHandler (\<lambda>u b. Inr u) (\<lambda>u p. ([], Some ''boom'')) ''/index'')
       = [SetStatusCode 500, End ''internal server error'']"
  using requestHandler_catches [of "\<lambda>u b. Inr u" "\<lambda>u p. ([], Some ''boom'')" "''/index''"]
  by (simp add: handling_throws_def requestHandler_def catch_handler_def)


section \<open>Mount on an initialized surface\<close>

text \<open>
  C1. A mount notification on a surface whose \<open>data-initialized\<close> attribute is set (to any
  non-empty value, such as the \<open>'true'\<close> the component writes) changes nothing: no session is
  created, no script is requested, no object of any session is touched.
\<close>

theorem mount_initialized_noop:
  "canvasRef w = Some (Some v) \<Longrightarrow> v \<noteq> [] \<Longrightarrow> step Mount w = w"
  by (simp add: useEffect_def truthy_def)

theorem mount_initialized_noop_witness:
  "canvasRef (run [Mount, ScriptLoaded 0 full_threex, ScriptLoaded 0 full_threex]
                (world0 False detect_always)) = Some (Some ''true'')
   \<and> step Mount (run [Mount, ScriptLoaded 0 full_threex, ScriptLoaded 0 full_threex]
                    (world0 False detect_always))
     = run [Mount, ScriptLoaded 0 full_threex, ScriptLoaded 0 full_threex]
         (world0 False detect_always)"
proof -
  have h: "canvasRef (run [Mount, ScriptLoaded 0 full_threex, ScriptLoaded 0 full_threex]
                        (world0 False detect_always)) = Some (Some ''true'')"
    by code_simp
  show ?thesis
    using h mount_initialized_noop [OF h] by simp
qed


section \<open>Facts about the handlers\<close>

lemmas loop_defs = requestAnimationFrame_def context_update_def render_def

lemmas construct_defs = scene_setup_def renderer_setup_def tracking_setup_def
  source_init_def source_ready_def add_resize_listener_def context_init_def marker_setup_def
  load_model_def add_lights_def construct_def

lemmas cleanup_defs = cancelAnimationFrame_def stop_webcam_def dispose_renderer_def
  remove_marker_def cleanup_def stop_tracks_def

lemma nth_upd: "j < length xs \<Longrightarrow> (xs[i := x]) ! j = (if i = j then x else xs ! j)"
  by auto

lemma animate_frame:
  "resize_listeners (settle i (animate i w)) = resize_listeners w"
  "length (sessions (settle i (animate i w))) = length (sessions w)"
  "canvasRef (settle i (animate i w)) = canvasRef w"
  "timers (settle i (animate i w)) = timers w"
  "lib_sync_ready (settle i (animate i w)) = lib_sync_ready w"
  by (auto simp: animate_def Let_def emit_def upd_session_def settle_def loop_defs
        split: option.splits)

lemma onResize_frame:
  "resize_listeners (settle i (onResize i w)) = resize_listeners w"
  "sessions (settle i (onResize i w)) = sessions w"
  "canvasRef (settle i (onResize i w)) = canvasRef w"
  "timers (settle i (onResize i w)) = timers w"
  "raf_pending (settle i (onResize i w)) = raf_pending w"
  "lib_sync_ready (settle i (onResize i w)) = lib_sync_ready w"
  by (auto simp: onResize_def Let_def emit_def settle_def split: option.splits)

lemma fold_resize_frame:
  "resize_listeners (fold (\<lambda>i w'. if i < length (sessions w') then settle i (onResize i w') else w') ls w) = resize_listeners w"
  "sessions (fold (\<lambda>i w'. if i < length (sessions w') then settle i (onResize i w') else w') ls w) = sessions w"
  "canvasRef (fold (\<lambda>i w'. if i < length (sessions w') then settle i (onResize i w') else w') ls w) = canvasRef w"
  "timers (fold (\<lambda>i w'. if i < length (sessions w') then settle i (onResize i w') else w') ls w) = timers w"
  "raf_pending (fold (\<lambda>i w'. if i < length (sessions w') then settle i (onResize i w') else w') ls w) = raf_pending w"
  "lib_sync_ready (fold (\<lambda>i w'. if i < length (sessions w') then settle i (onResize i w') else w') ls w) = lib_sync_ready w"
  by (induction ls arbitrary: w) (simp_all add: onResize_frame)

lemma construct_trace:
  "trace (construct i w) = trace w @
     ([SceneSetup i, NewRenderer i, NewSource i, NewContext i, SourceInit i]
      @ (if lib_sync_ready w then [CameraAcquired i, SetTimeout i] else [])
      @ [AddResizeListener i, ContextInit i, NewMarkerControls i, LoaderLoad i, AddLights i])"
  by (simp add: construct_defs emit_def upd_session_def Let_def)

lemma construct_frame:
  "resize_listeners (construct i w) = resize_listeners w @ [i]"
  "length (sessions (construct i w)) = length (sessions w)"
  "canvasRef (construct i w) = canvasRef w"
  "raf_pending (construct i w) = raf_pending w"
  "lib_sync_ready (construct i w) = lib_sync_ready w"
  by (simp_all add: construct_defs emit_def upd_session_def Let_def)

lemma construct_sessions:
  "i < length (sessions w) \<Longrightarrow>
   sessions (construct i w) = (sessions w)[i := (sessions w ! i)
      \<lparr>scene := Some True, camera := Some True, renderer := Some \<lparr>disposed = False\<rparr>,
       arToolkitContext := Some \<lparr>arController = False\<rparr>,
       arToolkitSource := Some \<lparr>ready = lib_sync_ready w,
          domElement = Some \<lparr>srcObject = (if lib_sync_ready w then Some [True] else None)\<rparr>\<rparr>,
       markerRoot := Some 0, loader_pending := True\<rparr>]"
  by (simp add: construct_defs emit_def upd_session_def Let_def)

lemma initAR_resume_frame:
  "set (resize_listeners w) \<subseteq> set (resize_listeners (initAR_resume i w))"
  "length (sessions (initAR_resume i w)) = length (sessions w)"
  "lib_sync_ready (initAR_resume i w) = lib_sync_ready w"
  by (auto simp: initAR_resume_def Let_def animate_frame construct_frame mark_initialized_def
        emit_def upd_session_def)

lemma script_loaded_frame:
  "set (resize_listeners w) \<subseteq> set (resize_listeners (script_loaded i (w\<lparr>THREEx := g\<rparr>)))"
  "length (sessions (script_loaded i (w\<lparr>THREEx := g\<rparr>))) = length (sessions w)"
  "lib_sync_ready (script_loaded i (w\<lparr>THREEx := g\<rparr>)) = lib_sync_ready w"
  using initAR_resume_frame(1)[of "w\<lparr>THREEx := g\<rparr>" i]
  by (auto simp: script_loaded_def loadScript_def emit_def upd_session_def initAR_resume_frame
        split: suspension.splits)

lemma cleanup_frame:
  "resize_listeners (settle i (cleanup i w)) = resize_listeners w"
  "length (sessions (settle i (cleanup i w))) = length (sessions w)"
  "timers (settle i (cleanup i w)) = timers w"
  "lib_sync_ready (settle i (cleanup i w)) = lib_sync_ready w"
  by (auto simp: cleanup_defs emit_def upd_session_def settle_def Let_def split: option.splits)

lemma step_listeners: "set (resize_listeners w) \<subseteq> set (resize_listeners (step e w))"
  using script_loaded_frame(1)
  by (cases e)
     (auto simp: script_failed_def useEffect_def loadScript_def context_ready_def model_loaded_def
        model_failed_def source_ready_def emit_def upd_session_def Let_def cleanup_frame animate_frame
        onResize_frame fold_resize_frame split: option.splits suspension.splits)

lemma step_length: "length (sessions w) \<le> length (sessions (step e w))"
  by (cases e)
     (auto simp: script_failed_def useEffect_def loadScript_def context_ready_def model_loaded_def
        model_failed_def source_ready_def emit_def upd_session_def Let_def cleanup_frame animate_frame
        onResize_frame fold_resize_frame script_loaded_frame split: option.splits suspension.splits)

lemma step_lib: "lib_sync_ready (step e w) = lib_sync_ready w"
  by (cases e)
     (auto simp: script_failed_def useEffect_def loadScript_def context_ready_def model_loaded_def
        model_failed_def source_ready_def emit_def upd_session_def Let_def cleanup_frame animate_frame
        onResize_frame fold_resize_frame script_loaded_frame split: option.splits suspension.splits)


section \<open>The render loop mirrors the detection state\<close>

lemma animate_mirrors:
  "i < length (sessions w) \<Longrightarrow> list_all mirrors (trace w) \<Longrightarrow>
   list_all mirrors (trace (settle i (animate i w)))"
  by (auto simp: animate_def Let_def emit_def upd_session_def settle_def loop_defs
        split: option.splits)

lemma onResize_mirrors:
  "list_all mirrors (trace w) \<Longrightarrow> list_all mirrors (trace (settle i (onResize i w)))"
  by (auto simp: onResize_def Let_def emit_def settle_def split: option.splits)

lemma initAR_resume_mirrors:
  "i < length (sessions w) \<Longrightarrow> list_all mirrors (trace w) \<Longrightarrow>
   list_all mirrors (trace (initAR_resume i w))"
  by (auto simp: initAR_resume_def Let_def construct_trace construct_frame mark_initialized_def
        emit_def upd_session_def intro!: animate_mirrors)

lemma cleanup_mirrors:
  "list_all mirrors (trace w) \<Longrightarrow> list_all mirrors (trace (settle i (cleanup i w)))"
  by (auto simp: cleanup_defs emit_def upd_session_def settle_def Let_def list_all_iff
        split: option.splits)

lemma fold_resize_mirrors:
  "list_all mirrors (trace w) \<Longrightarrow>
   list_all mirrors (trace (fold (\<lambda>i w'. if i < length (sessions w') then settle i (onResize i w') else w') ls w))"
  by (induction ls arbitrary: w) (simp_all add: onResize_mirrors)

lemma step_mirrors:
  assumes "list_all mirrors (trace w)"
  shows "list_all mirrors (trace (step e w))"
proof (cases e)
  case (ScriptLoaded i g)
  then show ?thesis
    using assms initAR_resume_mirrors[of i "w\<lparr>THREEx := g\<rparr>"]
    by (auto simp: script_loaded_def loadScript_def emit_def upd_session_def
          split: suspension.splits)
next
  case (Frame h)
  then show ?thesis
    using assms animate_mirrors[of _ "w\<lparr>raf_pending := filter (\<lambda>p. fst p \<noteq> h) (raf_pending w)\<rparr>"]
    by (auto simp: Let_def split: option.splits)
next
  case (Timeout i)
  then show ?thesis
    using assms onResize_mirrors[of "w\<lparr>timers := remove1 i (timers w)\<rparr>" i]
    by (auto simp: Let_def)
qed (use assms in \<open>simp_all add: useEffect_def loadScript_def script_failed_def source_ready_def
       context_ready_def model_loaded_def model_failed_def emit_def upd_session_def
       cleanup_mirrors fold_resize_mirrors split: option.splits suspension.splits\<close>)

lemma run_mirrors:
  "list_all mirrors (trace w) \<Longrightarrow> list_all mirrors (trace (run evs w))"
  by (induction evs arbitrary: w) (simp_all add: step_mirrors)

text \<open>
  C6. Whatever the events and whatever the library does, every render call of every session
  is issued while \<open>scene.visible\<close> equals \<open>camera.visible\<close>: the copy is made after the tracking
  update and before \<open>render\<close>.
\<close>

theorem render_mirrors_camera:
  "Render i sv cv \<in> set (trace (run evs (world0 sr det))) \<Longrightarrow> sv = cv"
  using run_mirrors[of "world0 sr det" evs]
  by (auto simp: world0_def list_all_iff dest!: bspec)

theorem render_mirrors_camera_witness:
  "Render 0 False False
     \<in> set (trace (run [Mount, ScriptLoaded 0 full_threex, ScriptLoaded 0 full_threex, Frame 1]
                     (world0 True detect_odd)))
   \<and> Render 0 True True
     \<in> set (trace (run [Mount, ScriptLoaded 0 full_threex, ScriptLoaded 0 full_threex, Frame 1]
                     (world0 True detect_odd)))"
proof -
  have h: "Render 0 False False
     \<in> set (trace (run [Mount, ScriptLoaded 0 full_threex, ScriptLoaded 0 full_threex, Frame 1]
                     (world0 True detect_odd)))"
    by code_simp
  have k: "Render 0 True True
     \<in> set (trace (run [Mount, ScriptLoaded 0 full_threex, ScriptLoaded 0 full_threex, Frame 1]
                     (world0 True detect_odd)))"
    by code_simp
  show ?thesis
    using h k render_mirrors_camera [OF h] render_mirrors_camera [OF k] by simp
qed


section \<open>Unmount releases the session\<close>

subsection \<open>Scheduled frame callbacks are known to their session\<close>

lemma frames_owned_useEffect: "frames_owned w \<Longrightarrow> frames_owned (useEffect w)"
  by (auto simp: frames_owned_def useEffect_def loadScript_def emit_def new_session_def
        list_all_iff nth_append split: option.splits)

lemma frames_owned_cleanup:
  "frames_owned w \<Longrightarrow> i < length (sessions w) \<Longrightarrow> frames_owned (settle i (cleanup i w))"
  by (auto simp: frames_owned_def cleanup_defs emit_def upd_session_def settle_def Let_def
        list_all_iff nth_upd split: option.splits)


lemma frames_owned_animate:
  "frames_owned w \<Longrightarrow> i < length (sessions w) \<Longrightarrow> \<not> frame_scheduled i w \<Longrightarrow>
   awaiting (sessions w ! i) = Returned \<Longrightarrow> frames_owned (settle i (animate i w))"
  by (auto simp: frames_owned_def frame_scheduled_def animate_def loop_defs emit_def upd_session_def settle_def Let_def
        list_all_iff nth_upd
        split: option.splits prod.splits)

lemma frames_owned_unscheduled:
  "frames_owned w \<Longrightarrow> i < length (sessions w) \<Longrightarrow> animationFrameId (sessions w ! i) = None \<Longrightarrow>
   \<not> frame_scheduled i w"
  by (auto simp: frames_owned_def frame_scheduled_def list_all_iff)

lemma frames_owned_construct:
  "frames_owned w \<Longrightarrow> i < length (sessions w) \<Longrightarrow> frames_owned (construct i w)"
  by (auto simp: frames_owned_def construct_sessions construct_frame list_all_iff nth_upd
       )

lemma frames_owned_initAR_resume:
  assumes "frames_owned w" "i < length (sessions w)" "awaiting (sessions w ! i) \<noteq> Returned"
  shows "frames_owned (initAR_resume i w)"
proof -
  let ?w1 = "upd_session i (\<lambda>s. s\<lparr>awaiting := Returned\<rparr>) w"
  have id: "animationFrameId (sessions w ! i) = None"
    using assms by (auto simp: frames_owned_def list_all_iff)
  have w1: "frames_owned ?w1"
    using assms by (auto simp: frames_owned_def upd_session_def list_all_iff nth_upd
       )
  then have "frames_owned (emit [ConsoleError i EntryPointsMissing] ?w1)"
    by (simp add: frames_owned_def emit_def)
  moreover
  let ?w2 = "construct i (mark_initialized i ?w1)"
  have m: "frames_owned (mark_initialized i ?w1)"
    using w1 by (simp add: frames_owned_def mark_initialized_def emit_def)
  have len: "i < length (sessions (mark_initialized i ?w1))"
    using assms by (simp add: mark_initialized_def emit_def upd_session_def)
  have w2: "frames_owned ?w2"
    using m len by (rule frames_owned_construct)
  have len2: "i < length (sessions ?w2)"
    using len by (simp add: construct_frame)
  have "animationFrameId (sessions ?w2 ! i) = None" "awaiting (sessions ?w2 ! i) = Returned"
    using assms id construct_sessions[OF len]
    by (simp_all add: mark_initialized_def emit_def upd_session_def)
  then have "frames_owned (settle i (animate i ?w2))"
    using w2 len2 frames_owned_animate frames_owned_unscheduled by blast
  ultimately show ?thesis
    using w1 by (simp add: initAR_resume_def Let_def)
qed


lemma frames_owned_script_loaded:
  assumes "frames_owned w" "i < length (sessions w)" "awaiting (sessions w ! i) \<noteq> Returned"
  shows "frames_owned (script_loaded i (w\<lparr>THREEx := g\<rparr>))"
proof -
  have g: "frames_owned (w\<lparr>THREEx := g\<rparr>)"
    using assms(1) by (simp add: frames_owned_def)
  show ?thesis
  proof (cases "awaiting (sessions w ! i)")
    case AwaitScript1
    then show ?thesis
      using assms
      by (auto simp: script_loaded_def loadScript_def emit_def upd_session_def frames_owned_def
            list_all_iff nth_upd)
  next
    case AwaitScript2
    then show ?thesis
      using frames_owned_initAR_resume[OF g] assms by (simp add: script_loaded_def)
  next
    case Returned
    then show ?thesis using assms by simp
  qed
qed

lemma frames_owned_callbacks:
  assumes "frames_owned w"
  shows "frames_owned (script_failed i w)"
    and "frames_owned (source_ready i w)"
    and "frames_owned (context_ready i w)"
    and "frames_owned (model_loaded i w)"
    and "frames_owned (model_failed i w)"
  using assms
  by (auto simp: script_failed_def source_ready_def context_ready_def model_loaded_def
        model_failed_def emit_def upd_session_def frames_owned_def list_all_iff nth_upd
        split: suspension.splits)

lemma frames_owned_frame:
  assumes "frames_owned w" "map_of (raf_pending w) h = Some i"
  shows "frames_owned (step (Frame h) w)"
proof -
  let ?w1 = "w\<lparr>raf_pending := filter (\<lambda>p. fst p \<noteq> h) (raf_pending w)\<rparr>"
  have mem: "(h, i) \<in> set (raf_pending w)"
    using assms(2) by (rule map_of_SomeD)
  then have i: "i < length (sessions w)" "animationFrameId (sessions w ! i) = Some h"
    using assms(1) by (auto simp: frames_owned_def list_all_iff)
  then have ret: "awaiting (sessions w ! i) = Returned"
    using assms(1) by (auto simp: frames_owned_def list_all_iff)
  have w1: "frames_owned ?w1"
    using assms(1) by (auto simp: frames_owned_def list_all_iff)
  have "\<not> frame_scheduled i ?w1"
    using assms(1) i by (auto simp: frames_owned_def frame_scheduled_def list_all_iff)
  then have "frames_owned (settle i (animate i ?w1))"
    using w1 i ret frames_owned_animate[of ?w1 i] by simp
  then show ?thesis
    using assms(2) i by (simp add: Let_def)
qed

lemma frames_owned_onResize:
  "frames_owned w \<Longrightarrow> frames_owned (settle i (onResize i w))"
  by (auto simp: frames_owned_def onResize_def settle_def emit_def Let_def split: option.splits)

lemma frames_owned_fold_resize:
  "frames_owned w \<Longrightarrow>
   frames_owned (fold (\<lambda>i w'. if i < length (sessions w') then settle i (onResize i w') else w') ls w)"
  by (induction ls arbitrary: w) (simp_all add: frames_owned_onResize)

lemma frames_owned_step: "frames_owned w \<Longrightarrow> frames_owned (step e w)"
proof (cases e)
  case (Frame h)
  then show ?thesis if "frames_owned w"
    using that frames_owned_frame[of w h] by (cases "map_of (raf_pending w) h") simp_all
next
  case (Timeout i)
  then show ?thesis if "frames_owned w"
    using that frames_owned_onResize[of "w\<lparr>timers := remove1 i (timers w)\<rparr>" i]
    by (simp add: Let_def frames_owned_def)
qed (simp_all add: frames_owned_useEffect frames_owned_cleanup frames_owned_script_loaded
       frames_owned_callbacks frames_owned_fold_resize)

lemma frames_owned_run: "frames_owned w \<Longrightarrow> frames_owned (run evs w)"
  by (induction evs arbitrary: w) (simp_all add: frames_owned_step)

lemma frames_owned_world0: "frames_owned (world0 sr det)"
  by (simp add: frames_owned_def world0_def)

lemma cleanup_released:
  assumes "frames_owned w" "i < length (sessions w)"
  shows "\<exists>w'. cleanup i w = Inr w' \<and> released i w' \<and> marker_clear w'
           \<and> length (sessions w') = length (sessions w)
           \<and> source_pending (sessions w' ! i) = source_pending (sessions w ! i)"
  using assms
  by (auto simp: cleanup_defs emit_def upd_session_def Let_def released_def live_tracks_def
        frame_scheduled_def renderer_released_def frames_owned_def list_all_iff marker_clear_def
        source_pending_def split: option.splits)

subsection \<open>A retired session stays retired\<close>

lemma animate_unmounted: "\<not> isMounted (sessions w ! i) \<Longrightarrow> settle i (animate i w) = w"
  by (simp add: animate_def settle_def)

lemma animate_other:
  "i \<noteq> j \<Longrightarrow> sessions (settle j (animate j w)) ! i = sessions w ! i"
  "i \<noteq> j \<Longrightarrow> frame_scheduled i (settle j (animate j w)) = frame_scheduled i w"
  by (auto simp: animate_def Let_def emit_def upd_session_def settle_def loop_defs
        frame_scheduled_def split: option.splits)

lemma construct_other:
  "i \<noteq> j \<Longrightarrow> sessions (construct j w) ! i = sessions w ! i"
  by (simp add: construct_defs emit_def upd_session_def Let_def)

lemma initAR_resume_unmounted:
  "\<not> isMounted (sessions w ! i) \<Longrightarrow>
   initAR_resume i w = upd_session i (\<lambda>s. s\<lparr>awaiting := Returned\<rparr>) w"
  by (simp add: initAR_resume_def)

lemma frame_scheduled_cong:
  "raf_pending w' = raf_pending w \<Longrightarrow> frame_scheduled i w' = frame_scheduled i w"
  by (simp add: frame_scheduled_def)

lemma initAR_resume_other:
  assumes "i \<noteq> j"
  shows "sessions (initAR_resume j w) ! i = sessions w ! i"
    and "frame_scheduled i (initAR_resume j w) = frame_scheduled i w"
proof -
  let ?w1 = "upd_session j (\<lambda>s. s\<lparr>awaiting := Returned\<rparr>) w"
  let ?w2 = "construct j (mark_initialized j ?w1)"
  have s1: "sessions ?w1 ! i = sessions w ! i" "raf_pending ?w1 = raf_pending w"
    using assms by (simp_all add: upd_session_def)
  have s2: "sessions ?w2 ! i = sessions w ! i" "raf_pending ?w2 = raf_pending w"
    using assms s1 by (simp_all add: construct_other construct_frame mark_initialized_def emit_def)
  have s3: "sessions (settle j (animate j ?w2)) ! i = sessions w ! i"
    "frame_scheduled i (settle j (animate j ?w2)) = frame_scheduled i w"
    using assms s2 animate_other[of i j ?w2] frame_scheduled_cong[of ?w2 w i] by simp_all
  show "sessions (initAR_resume j w) ! i = sessions w ! i"
    using s1 s3 by (simp add: initAR_resume_def Let_def emit_def)
  show "frame_scheduled i (initAR_resume j w) = frame_scheduled i w"
    using s1 s3 frame_scheduled_cong[of ?w1 w i]
    by (simp add: initAR_resume_def Let_def emit_def frame_scheduled_def)
qed


lemma retired_cong:
  "retired i w \<Longrightarrow> length (sessions w) \<le> length (sessions w') \<Longrightarrow>
   sessions w' ! i = sessions w ! i \<Longrightarrow> frame_scheduled i w' = frame_scheduled i w \<Longrightarrow>
   retired i w'"
  by (simp add: retired_def released_def)

lemma retired_upd:
  assumes "retired i w"
    and "\<And>s. \<not> isMounted s \<Longrightarrow> \<not> isMounted (f s)"
    and "\<And>s. live_tracks s = 0 \<Longrightarrow> \<not> source_pending s \<Longrightarrow> live_tracks (f s) = 0"
    and "\<And>s. renderer_released s \<Longrightarrow> renderer_released (f s)"
    and "\<And>s. \<not> source_pending s \<Longrightarrow> \<not> source_pending (f s)"
  shows "retired i (upd_session j f w)"
  using assms
  by (cases "i = j") (auto simp: retired_def released_def upd_session_def frame_scheduled_def)

lemma retired_emit [simp]: "retired i (emit as w) = retired i w"
  by (simp add: retired_def released_def emit_def frame_scheduled_def)

lemma script_loaded_retired:
  assumes "retired i w" "j < length (sessions w)"
  shows "retired i (script_loaded j (w\<lparr>THREEx := g\<rparr>))"
proof -
  let ?w = "w\<lparr>THREEx := g\<rparr>"
  have r: "retired i ?w"
    using assms(1) by (rule retired_cong) (simp_all add: frame_scheduled_def)
  have u: "retired i (upd_session j (\<lambda>s. s\<lparr>awaiting := a\<rparr>) ?w)" for a
    using r by (rule retired_upd) (simp_all add: live_tracks_def renderer_released_def source_pending_def)
  show ?thesis
  proof (cases "awaiting (sessions w ! j)")
    case AwaitScript1
    then show ?thesis using u by (simp add: script_loaded_def loadScript_def)
  next
    case Returned
    then show ?thesis using r by (simp add: script_loaded_def)
  next
    case AwaitScript2
    show ?thesis
    proof (cases "i = j")
      case True
      then have "\<not> isMounted (sessions ?w ! j)"
        using assms(1) by (simp add: retired_def released_def)
      then show ?thesis
        using AwaitScript2 u by (simp add: script_loaded_def initAR_resume_unmounted)
    next
      case False
      have "retired i (initAR_resume j ?w)"
        using r
      proof (rule retired_cong)
        show "length (sessions ?w) \<le> length (sessions (initAR_resume j ?w))"
          by (simp add: initAR_resume_frame)
        show "sessions (initAR_resume j ?w) ! i = sessions ?w ! i"
          using False by (rule initAR_resume_other)
        show "frame_scheduled i (initAR_resume j ?w) = frame_scheduled i ?w"
          using False by (rule initAR_resume_other)
      qed
      then show ?thesis
        using AwaitScript2 by (simp add: script_loaded_def)
    qed
  qed
qed

lemma stop_tracks_live:
  "live_tracks (s\<lparr>arToolkitSource := Some (stop_tracks src)\<rparr>) = 0"
  by (simp add: live_tracks_def stop_tracks_def split: option.splits)

lemma cleanup_retired:
  assumes "retired i w"
  shows "retired i (settle j (cleanup j w))"
proof -
  let ?w1 = "upd_session j (\<lambda>s. s\<lparr>isMounted := False\<rparr>) w"
  let ?w2 = "cancelAnimationFrame j (animationFrameId (sessions ?w1 ! j)) ?w1"
  have 1: "retired i ?w1"
    using assms by (rule retired_upd) (simp_all add: live_tracks_def renderer_released_def source_pending_def)
  have 2: "retired i ?w2"
    using 1 by (auto simp: cancelAnimationFrame_def retired_def released_def emit_def frame_scheduled_def)
  have 3: "retired i (stop_webcam j ?w2)"
  proof (cases "arToolkitSource (sessions ?w2 ! j)")
    case None
    then show ?thesis using 2 by (simp add: stop_webcam_def)
  next
    case (Some src)
    have "retired i (upd_session j (\<lambda>s. s\<lparr>arToolkitSource := Some (stop_tracks src)\<rparr>) ?w2)"
      if "source_pending (sessions ?w2 ! j) = source_pending ((sessions ?w2 ! j)\<lparr>arToolkitSource := Some (stop_tracks src)\<rparr>)"
      using 2 that
      by (cases "i = j")
         (auto simp: retired_def released_def upd_session_def frame_scheduled_def stop_tracks_live
            renderer_released_def)
    moreover have "source_pending (sessions ?w2 ! j) = source_pending ((sessions ?w2 ! j)\<lparr>arToolkitSource := Some (stop_tracks src)\<rparr>)"
      using Some by (simp add: source_pending_def stop_tracks_def split: option.splits)
    ultimately show ?thesis
      using 2 Some by (simp add: stop_webcam_def split: option.splits)
  qed
  have 4: "retired i (dispose_renderer j (stop_webcam j ?w2))"
    using 3 
    by (auto simp: dispose_renderer_def split: option.splits
          intro!: retired_upd simp: live_tracks_def renderer_released_def source_pending_def)
  have 5: "retired i (remove_marker j (dispose_renderer j (stop_webcam j ?w2)))"
    using 4 by (auto simp: remove_marker_def split: option.splits elim!: retired_cong simp: frame_scheduled_def)
  show ?thesis
    using 5 by (simp add: cleanup_def settle_def Let_def)
qed


lemma useEffect_retired: "retired i w \<Longrightarrow> retired i (useEffect w)"
  by (auto simp: useEffect_def loadScript_def retired_def released_def frame_scheduled_def
        nth_append emit_def split: option.splits)

lemma script_failed_retired: "retired i w \<Longrightarrow> retired i (script_failed j w)"
  by (auto simp: script_failed_def split: suspension.splits
        intro!: retired_upd simp: live_tracks_def renderer_released_def source_pending_def)

lemma source_ready_retired:
  assumes "retired i w" "source_pending (sessions w ! j)"
  shows "retired i (source_ready j w)"
proof -
  have "i \<noteq> j"
    using assms by (auto simp: retired_def)
  then show ?thesis
    using assms(1)
    by (auto simp: source_ready_def retired_def released_def frame_scheduled_def emit_def
          upd_session_def)
qed

lemma context_ready_retired: "retired i w \<Longrightarrow> retired i (context_ready j w)"
  by (auto simp: context_ready_def
        intro!: retired_upd simp: live_tracks_def renderer_released_def source_pending_def)

lemma model_loaded_retired: "retired i w \<Longrightarrow> retired i (model_loaded j w)"
  by (auto simp: model_loaded_def
        intro!: retired_upd simp: live_tracks_def renderer_released_def source_pending_def)

lemma model_failed_retired: "retired i w \<Longrightarrow> retired i (model_failed j w)"
  by (auto simp: model_failed_def
        intro!: retired_upd simp: live_tracks_def renderer_released_def source_pending_def)

lemma onResize_retired: "retired i w \<Longrightarrow> retired i (settle j (onResize j w))"
  by (simp add: retired_def released_def onResize_frame frame_scheduled_def)

lemma fold_resize_retired:
  "retired i w \<Longrightarrow>
   retired i (fold (\<lambda>i w'. if i < length (sessions w') then settle i (onResize i w') else w') ls w)"
  by (simp add: retired_def released_def fold_resize_frame frame_scheduled_def)

lemma frame_retired:
  assumes "retired i w"
  shows "retired i (step (Frame h) w)"
proof (cases "map_of (raf_pending w) h")
  case None
  then show ?thesis using assms by simp
next
  case (Some j)
  let ?w1 = "w\<lparr>raf_pending := filter (\<lambda>p. fst p \<noteq> h) (raf_pending w)\<rparr>"
  have "(h, j) \<in> set (raf_pending w)"
    using Some by (rule map_of_SomeD)
  then have ij: "i \<noteq> j"
    using assms by (force simp: retired_def released_def frame_scheduled_def)
  have w1: "retired i ?w1"
    using assms by (auto simp: retired_def released_def frame_scheduled_def)
  then have "retired i (settle j (animate j ?w1))"
    using ij animate_other[of i j ?w1]
    by (simp add: retired_def released_def animate_frame)
  then show ?thesis
    using Some w1 by (simp add: Let_def)
qed

lemma step_retired:
  assumes "retired i w"
  shows "retired i (step e w)"
proof (cases e)
  case (Frame h)
  then show ?thesis
    using assms frame_retired by simp
next
  case (Timeout j)
  then show ?thesis
    using assms onResize_retired[of i "w\<lparr>timers := remove1 j (timers w)\<rparr>" j]
    by (simp add: Let_def retired_def released_def frame_scheduled_def)
qed (use assms in \<open>simp_all add: useEffect_retired script_failed_retired source_ready_retired
       context_ready_retired model_loaded_retired model_failed_retired cleanup_retired
       script_loaded_retired fold_resize_retired\<close>)

lemma run_retired: "retired i w \<Longrightarrow> retired i (run evs w)"
  by (induction evs arbitrary: w) (simp_all add: step_retired)


text \<open>
  C2. At every state the component can reach, for every session created so far (whether it
  still loads its scripts, has aborted, or runs), the cleanup function returns normally and
  leaves the session unmounted, with no live camera track, no scheduled frame callback, the
  renderer disposed if there is one, and the marker cleared. Unless a camera request of the
  session is still in flight at that moment, this stays so whatever happens afterwards.
\<close>

theorem unmount_releases:
  assumes "i < length (sessions (run evs (world0 sr det)))"
  shows "\<exists>w'. cleanup i (run evs (world0 sr det)) = Inr w' \<and> released i w' \<and> marker_clear w'
           \<and> (\<not> source_pending (sessions (run evs (world0 sr det)) ! i)
                \<longrightarrow> (\<forall>evs'. released i (run evs' w')))"
proof -
  let ?w = "run evs (world0 sr det)"
  have "frames_owned ?w"
    using frames_owned_world0 by (rule frames_owned_run)
  then obtain w' where w': "cleanup i ?w = Inr w'" "released i w'" "marker_clear w'"
      "length (sessions w') = length (sessions ?w)"
      "source_pending (sessions w' ! i) = source_pending (sessions ?w ! i)"
    using assms cleanup_released by blast
  have "released i (run evs' w')" if "\<not> source_pending (sessions ?w ! i)" for evs'
  proof -
    have "retired i w'"
      using w' assms that by (simp add: retired_def)
    then have "retired i (run evs' w')"
      by (rule run_retired)
    then show ?thesis
      by (simp add: retired_def)
  qed
  then show ?thesis
    using w' by blast
qed

theorem unmount_releases_witness:
  "0 < length (sessions (run [Mount, ScriptLoaded 0 full_threex, ScriptLoaded 0 full_threex, Frame 1]
                           (world0 True detect_odd)))
   \<and> \<not> source_pending (sessions (run [Mount, ScriptLoaded 0 full_threex, ScriptLoaded 0 full_threex, Frame 1]
                           (world0 True detect_odd)) ! 0)
   \<and> live_tracks (sessions (run [Mount, ScriptLoaded 0 full_threex, ScriptLoaded 0 full_threex, Frame 1]
                           (world0 True detect_odd)) ! 0) = 1
   \<and> frame_scheduled 0 (run [Mount, ScriptLoaded 0 full_threex, ScriptLoaded 0 full_threex, Frame 1]
                           (world0 True detect_odd))
   \<and> (\<exists>w'. cleanup 0 (run [Mount, ScriptLoaded 0 full_threex, ScriptLoaded 0 full_threex, Frame 1]
                           (world0 True detect_odd)) = Inr w'
          \<and> released 0 w' \<and> marker_clear w' \<and> (\<forall>evs'. released 0 (run evs' w')))"
proof -
  let ?w = "run [Mount, ScriptLoaded 0 full_threex, ScriptLoaded 0 full_threex, Frame 1]
              (world0 True detect_odd)"
  have h: "0 < length (sessions ?w)"
    by code_simp
  have k: "\<not> source_pending (sessions ?w ! 0)"
    by code_simp
  have l: "live_tracks (sessions ?w ! 0) = 1"
    by code_simp
  have f: "frame_scheduled 0 ?w"
    by code_simp
  show ?thesis
    using h k l f unmount_releases [OF h] by blast
qed


section \<open>The resize listener outlives the session\<close>

lemma run_listeners: "set (resize_listeners w) \<subseteq> set (resize_listeners (run evs w))"
proof (induction evs arbitrary: w)
  case Nil
  then show ?case by simp
next
  case (Cons e es)
  then show ?case
    using step_listeners[of w e] by (simp add: subset_iff)
qed

lemma cleanup_effects:
  assumes "i < length (sessions w)"
  shows "\<not> isMounted (sessions (step (Unmount i) w) ! i)
         \<and> live_tracks (sessions (step (Unmount i) w) ! i) = 0
         \<and> renderer_released (sessions (step (Unmount i) w) ! i)
         \<and> marker_clear (step (Unmount i) w)
         \<and> CancelFrame i (animationFrameId (sessions w ! i)) \<in> set (emitted (Unmount i) w)"
  using assms
  by (auto simp: emitted_def cleanup_defs emit_def upd_session_def settle_def Let_def
        live_tracks_def renderer_released_def marker_clear_def split: option.splits)

text \<open>
  C10. Once a session has registered its resize handler on the window, unmounting it runs
  the cleanup function, which unmounts the session, cancels its frame handle, stops the
  tracks of its camera stream, disposes its renderer and clears the marker, and leaves the
  list of listeners as it is; no later event removes the handler either.
\<close>

theorem resize_listener_survives_unmount:
  assumes "i \<in> set (resize_listeners w)" "i < length (sessions w)"
  shows "resize_listeners (step (Unmount i) w) = resize_listeners w
         \<and> i \<in> set (resize_listeners (run evs (step (Unmount i) w)))
         \<and> \<not> isMounted (sessions (step (Unmount i) w) ! i)
         \<and> live_tracks (sessions (step (Unmount i) w) ! i) = 0
         \<and> renderer_released (sessions (step (Unmount i) w) ! i)
         \<and> marker_clear (step (Unmount i) w)
         \<and> CancelFrame i (animationFrameId (sessions w ! i)) \<in> set (emitted (Unmount i) w)"
proof -
  have eq: "resize_listeners (step (Unmount i) w) = resize_listeners w"
    by (simp add: cleanup_frame)
  then have "i \<in> set (resize_listeners (run evs (step (Unmount i) w)))"
    using assms(1) run_listeners[of "step (Unmount i) w" evs] by auto
  then show ?thesis
    using eq cleanup_effects[OF assms(2)] by blast
qed

theorem resize_listener_survives_unmount_witness:
  "0 \<in> set (resize_listeners (run load_ok (world0 False detect_always)))
   \<and> 0 < length (sessions (run load_ok (world0 False detect_always)))
   \<and> resize_listeners (step (Unmount 0) (run load_ok (world0 False detect_always))) = [0]
   \<and> 0 \<in> set (resize_listeners (run [Resize, Mount]
                  (step (Unmount 0) (run load_ok (world0 False detect_always)))))"
proof -
  let ?w = "run load_ok (world0 False detect_always)"
  have h: "0 \<in> set (resize_listeners ?w)"
    by code_simp
  have l: "0 < length (sessions ?w)"
    by code_simp
  have k: "resize_listeners ?w = [0]"
    by code_simp
  have r: "resize_listeners (step (Unmount 0) ?w) = resize_listeners ?w"
    and m: "0 \<in> set (resize_listeners (run [Resize, Mount] (step (Unmount 0) ?w)))"
    using resize_listener_survives_unmount [OF h l, of "[Resize, Mount]"] by blast+
  show ?thesis
  proof (intro conjI)
    show "0 \<in> set (resize_listeners ?w)"
      by (rule h)
    show "0 < length (sessions ?w)"
      by (rule l)
    show "resize_listeners (step (Unmount 0) ?w) = [0]"
      using r k by (rule trans)
    show "0 \<in> set (resize_listeners (run [Resize, Mount] (step (Unmount 0) ?w)))"
      by (rule m)
  qed
qed


section \<open>No callback throws\<close>

text \<open>
  \<open>animate\<close> and \<open>onResize\<close> read closure variables without a guard. They exist, as
  callbacks, only for sessions whose variables are all assigned, so at every state the
  component can reach no callback throws.
\<close>

lemma wired_upd:
  assumes "wired w"
    and "\<And>s. built s \<Longrightarrow> built (f s)"
    and "\<And>s. arToolkitSource (f s) \<noteq> None \<Longrightarrow> arToolkitSource s \<noteq> None"
  shows "wired (upd_session i f w)"
  using assms
  by (auto simp: wired_def upd_session_def list_all_iff nth_upd)

lemma wired_emit: "wired w \<Longrightarrow> \<not> list_ex is_uncaught as \<Longrightarrow> wired (emit as w)"
  by (simp add: wired_def emit_def)

lemma animate_built:
  assumes "i < length (sessions w)" "built (sessions w ! i)"
  shows "\<exists>w'. animate i w = Inr w'"
  using assms
  by (auto simp: animate_def built_def Let_def loop_defs emit_def upd_session_def
        split: option.splits)

lemma onResize_built:
  assumes "built (sessions w ! i)"
  shows "\<exists>w'. onResize i w = Inr w'"
  using assms
  by (auto simp: onResize_def built_def Let_def emit_def split: option.splits)

lemma wired_onResize:
  assumes "wired w" "i < length (sessions w)" "built (sessions w ! i)"
  shows "wired (settle i (onResize i w))"
  using assms
  by (auto simp: onResize_def built_def Let_def emit_def settle_def wired_def
        split: option.splits)

lemma wired_animate:
  assumes "wired w" "i < length (sessions w)" "built (sessions w ! i)"
  shows "wired (settle i (animate i w))"
  using assms
  by (auto simp: animate_def built_def Let_def loop_defs emit_def upd_session_def settle_def
        wired_def list_all_iff nth_upd split: option.splits)

lemma built_construct:
  assumes "i < length (sessions w)"
  shows "built (sessions (construct i w) ! i)"
  using assms by (simp add: construct_sessions built_def)

lemma construct_source:
  assumes "i < length (sessions w)" "j < length (sessions w)" "j \<noteq> i"
  shows "sessions (construct i w) ! j = sessions w ! j"
  using assms by (simp add: construct_sessions)

lemma construct_timers: "set (timers (construct i w)) \<subseteq> insert i (set (timers w))"
  by (auto simp: construct_defs emit_def upd_session_def Let_def)

lemma construct_built_mono:
  assumes "i < length (sessions w)" "j < length (sessions w)" "built (sessions w ! j)"
  shows "built (sessions (construct i w) ! j)"
  using assms built_construct[OF assms(1)] construct_source[OF assms(1,2)]
  by (cases "j = i") simp_all

lemma wired_construct:
  assumes "wired w" "i < length (sessions w)"
  shows "wired (construct i w)"
  unfolding wired_def
proof (intro conjI allI impI)
  fix j
  assume j: "j < length (sessions (construct i w))"
    and s: "arToolkitSource (sessions (construct i w) ! j) \<noteq> None"
  show "built (sessions (construct i w) ! j)"
  proof (cases "j = i")
    case True
    then show ?thesis using built_construct[OF assms(2)] by simp
  next
    case False
    then have "sessions (construct i w) ! j = sessions w ! j"
      using construct_source[OF assms(2)] j by (simp add: construct_frame)
    then show ?thesis
      using assms(1) j s by (simp add: wired_def construct_frame)
  qed
next
  have k: "k < length (sessions (construct i w)) \<and> built (sessions (construct i w) ! k)"
    if "k < length (sessions w)" "built (sessions w ! k)" for k
    using that construct_built_mono[OF assms(2)] by (simp add: construct_frame)
  have old: "\<forall>k \<in> set (resize_listeners w) \<union> set (timers w) \<union> set (map snd (raf_pending w)).
               k < length (sessions w) \<and> built (sessions w ! k)"
    using assms(1) by (auto simp: wired_def list_all_iff)
  have i: "i < length (sessions (construct i w)) \<and> built (sessions (construct i w) ! i)"
    using assms(2) built_construct[OF assms(2)] by (simp add: construct_frame)
  show "list_all (\<lambda>i'. i' < length (sessions (construct i w)) \<and> built (sessions (construct i w) ! i'))
          (resize_listeners (construct i w) @ timers (construct i w) @ map snd (raf_pending (construct i w)))"
    unfolding list_all_iff
  proof
    fix k
    assume "k \<in> set (resize_listeners (construct i w) @ timers (construct i w)
                      @ map snd (raf_pending (construct i w)))"
    then have "k = i \<or> k \<in> set (resize_listeners w) \<union> set (timers w) \<union> set (map snd (raf_pending w))"
      using construct_timers[of i w] by (auto simp: construct_frame)
    then show "k < length (sessions (construct i w)) \<and> built (sessions (construct i w) ! k)"
      using i old k by blast
  qed
next
  show "\<not> list_ex is_uncaught (trace (construct i w))"
    using assms(1) by (simp add: wired_def construct_trace)
qed

lemma wired_upd_at:
  assumes "wired w"
    and "built (sessions w ! i) \<Longrightarrow> built (f (sessions w ! i))"
    and "arToolkitSource (f (sessions w ! i)) \<noteq> None \<Longrightarrow> arToolkitSource (sessions w ! i) \<noteq> None"
  shows "wired (upd_session i f w)"
  using assms
  by (auto simp: wired_def upd_session_def list_all_iff nth_upd)

lemma wired_cong:
  assumes "wired w" "sessions w' = sessions w" "trace w' = trace w"
    and "set (resize_listeners w') \<subseteq> set (resize_listeners w)"
    and "set (timers w') \<subseteq> set (timers w)"
    and "set (raf_pending w') \<subseteq> set (raf_pending w)"
  shows "wired w'"
proof -
  have "snd ` set (raf_pending w') \<subseteq> snd ` set (raf_pending w)"
    using assms(6) by (rule image_mono)
  then have sub: "set (resize_listeners w' @ timers w' @ map snd (raf_pending w'))
                   \<subseteq> set (resize_listeners w @ timers w @ map snd (raf_pending w))"
    using assms(4,5) by auto
  have "list_all (\<lambda>i. i < length (sessions w) \<and> built (sessions w ! i))
          (resize_listeners w @ timers w @ map snd (raf_pending w))"
    using assms(1) by (simp add: wired_def)
  then have "list_all (\<lambda>i. i < length (sessions w) \<and> built (sessions w ! i))
          (resize_listeners w' @ timers w' @ map snd (raf_pending w'))"
    using sub unfolding list_all_iff by blast
  then show ?thesis
    using assms(1) unfolding wired_def assms(2,3) by blast
qed

lemma wired_initAR_resume:
  assumes "wired w" "i < length (sessions w)"
  shows "wired (initAR_resume i w)"
proof -
  let ?w1 = "upd_session i (\<lambda>s. s\<lparr>awaiting := Returned\<rparr>) w"
  let ?w2 = "construct i (mark_initialized i ?w1)"
  have 1: "wired ?w1"
    using assms(1) by (rule wired_upd) (simp_all add: built_def)
  have m: "wired (mark_initialized i ?w1)"
    unfolding mark_initialized_def
    by (rule wired_emit, rule wired_cong[OF 1]) simp_all
  have l: "i < length (sessions (mark_initialized i ?w1))"
    using assms(2) by (simp add: mark_initialized_def emit_def upd_session_def)
  have 2: "wired ?w2"
    using m l by (rule wired_construct)
  have b: "built (sessions ?w2 ! i)"
    using l by (rule built_construct)
  have l2: "i < length (sessions ?w2)"
    using l by (simp add: construct_frame)
  have 3: "wired (settle i (animate i ?w2))"
    using 2 l2 b by (rule wired_animate)
  have 4: "wired (emit [ConsoleError i EntryPointsMissing] ?w1)"
    using 1 by (rule wired_emit) simp
  show ?thesis
    using 1 3 4 by (simp add: initAR_resume_def Let_def)
qed

lemma wired_script_loaded:
  assumes "wired w" "i < length (sessions w)"
  shows "wired (script_loaded i (w\<lparr>THREEx := g\<rparr>))"
proof -
  let ?w = "w\<lparr>THREEx := g\<rparr>"
  have 0: "wired ?w"
    using assms(1) by (rule wired_cong) simp_all
  have 1: "wired (initAR_resume i ?w)"
    using 0 assms(2) by (intro wired_initAR_resume) simp_all
  have "wired (upd_session i (\<lambda>s. s\<lparr>awaiting := AwaitScript2\<rparr>) ?w)"
    using 0 by (rule wired_upd) (simp_all add: built_def)
  then have 2: "wired (loadScript i ArThreexJs (upd_session i (\<lambda>s. s\<lparr>awaiting := AwaitScript2\<rparr>) ?w))"
    unfolding loadScript_def by (rule wired_emit) simp
  show ?thesis
    using 0 1 2 by (simp add: script_loaded_def split: suspension.splits)
qed

lemma wired_cleanup:
  assumes "wired w"
  shows "wired (settle i (cleanup i w))"
proof -
  let ?w1 = "upd_session i (\<lambda>s. s\<lparr>isMounted := False\<rparr>) w"
  let ?w2 = "cancelAnimationFrame i (animationFrameId (sessions ?w1 ! i)) ?w1"
  have 1: "wired ?w1"
    using assms by (rule wired_upd) (simp_all add: built_def)
  have 2: "wired ?w2"
    unfolding cancelAnimationFrame_def
    by (rule wired_emit, rule wired_cong[OF 1]) auto
  have 3: "wired (stop_webcam i ?w2)"
  proof (cases "arToolkitSource (sessions ?w2 ! i)")
    case None
    then show ?thesis using 2 by (simp add: stop_webcam_def)
  next
    case (Some src)
    have "wired (upd_session i (\<lambda>s. s\<lparr>arToolkitSource := Some (stop_tracks src)\<rparr>) ?w2)"
      using 2 by (rule wired_upd_at) (simp_all add: built_def Some)
    then have "wired (emit as (upd_session i (\<lambda>s. s\<lparr>arToolkitSource := Some (stop_tracks src)\<rparr>) ?w2))"
      if "\<not> list_ex is_uncaught as" for as
      using that by (rule wired_emit)
    then show ?thesis
      using 2 Some by (simp add: stop_webcam_def list_ex_iff split: option.splits)
  qed
  let ?w3 = "stop_webcam i ?w2"
  have 4: "wired (dispose_renderer i ?w3)"
  proof (cases "renderer (sessions ?w3 ! i)")
    case None
    then show ?thesis using 3 by (simp add: dispose_renderer_def)
  next
    case (Some r)
    have "wired (upd_session i (\<lambda>s. s\<lparr>renderer := Some (r\<lparr>disposed := True\<rparr>)\<rparr>) ?w3)"
      using 3 by (rule wired_upd) (simp_all add: built_def)
    then have "wired (emit [RendererDispose i]
                 (upd_session i (\<lambda>s. s\<lparr>renderer := Some (r\<lparr>disposed := True\<rparr>)\<rparr>) ?w3))"
      by (rule wired_emit) simp
    then show ?thesis
      using Some by (simp add: dispose_renderer_def)
  qed
  let ?w4 = "dispose_renderer i ?w3"
  have 5: "wired (remove_marker i ?w4)"
  proof (cases "canvasRef ?w4")
    case None
    then show ?thesis using 4 by (simp add: remove_marker_def)
  next
    case (Some a)
    have "wired (emit [RemoveAttribute i] (?w4\<lparr>canvasRef := Some None\<rparr>))"
      by (rule wired_emit, rule wired_cong[OF 4]) simp_all
    then show ?thesis
      using Some by (simp add: remove_marker_def)
  qed
  show ?thesis
    using 5 by (simp add: cleanup_def settle_def Let_def)
qed

lemma wired_append:
  assumes "wired w" "arToolkitSource s = None"
  shows "wired (w\<lparr>sessions := sessions w @ [s]\<rparr>)"
  using assms
  by (auto simp: wired_def list_all_iff nth_append less_Suc_eq)

lemma wired_useEffect: "wired w \<Longrightarrow> wired (useEffect w)"
  by (auto simp: useEffect_def loadScript_def new_session_def split: option.splits
        intro!: wired_emit wired_append)

lemma wired_source_ready:
  assumes "wired w" "i < length (sessions w)" "source_pending (sessions w ! i)"
  shows "wired (source_ready i w)"
proof -
  have b: "built (sessions w ! i)"
    using assms by (auto simp: wired_def source_pending_def split: option.splits)
  have "wired (w\<lparr>timers := timers w @ [i]\<rparr>)"
    using assms(1,2) b by (auto simp: wired_def list_all_iff)
  then have "wired (upd_session i
          (\<lambda>s. s\<lparr>arToolkitSource :=
                   map_option (\<lambda>src. src\<lparr>ready := True, domElement := Some \<lparr>srcObject = Some [True]\<rparr>\<rparr>)
                     (arToolkitSource s)\<rparr>)
          (w\<lparr>timers := timers w @ [i]\<rparr>))"
    by (rule wired_upd) (auto simp: built_def)
  then show ?thesis
    unfolding source_ready_def by (rule wired_emit) simp
qed

lemma wired_callbacks:
  assumes "wired w"
  shows "wired (script_failed i w)"
    and "wired (context_ready i w)"
    and "wired (model_loaded i w)"
    and "wired (model_failed i w)"
proof -
  have u: "wired (upd_session i (\<lambda>s. s\<lparr>awaiting := Returned\<rparr>) w)"
    using assms by (rule wired_upd) (simp_all add: built_def)
  show "wired (script_failed i w)"
    using assms u by (auto simp: script_failed_def split: suspension.splits intro!: wired_emit)
  have "wired (upd_session i
          (\<lambda>s. s\<lparr>arToolkitContext := map_option (\<lambda>c. c\<lparr>arController := True\<rparr>) (arToolkitContext s)\<rparr>) w)"
    using assms by (rule wired_upd) (auto simp: built_def)
  then show "wired (context_ready i w)"
    unfolding context_ready_def by (rule wired_emit) simp
  have "wired (upd_session i (\<lambda>s. s\<lparr>markerRoot := map_option Suc (markerRoot s), loader_pending := False\<rparr>) w)"
    using assms by (rule wired_upd) (simp_all add: built_def)
  then show "wired (model_loaded i w)"
    unfolding model_loaded_def by (rule wired_emit) simp
  have "wired (upd_session i (\<lambda>s. s\<lparr>loader_pending := False\<rparr>) w)"
    using assms by (rule wired_upd) (simp_all add: built_def)
  then show "wired (model_failed i w)"
    unfolding model_failed_def by (rule wired_emit) simp
qed

lemma wired_fold_resize:
  assumes "wired w" "set ls \<subseteq> set (resize_listeners w)"
  shows "wired (fold (\<lambda>i w'. if i < length (sessions w') then settle i (onResize i w') else w') ls w)"
  using assms
proof (induction ls arbitrary: w)
  case Nil
  then show ?case by simp
next
  case (Cons i ls)
  have b: "i < length (sessions w)" "built (sessions w ! i)"
    using Cons.prems by (auto simp: wired_def list_all_iff)
  have 1: "wired (settle i (onResize i w))"
    using Cons.prems(1) b by (rule wired_onResize)
  have 2: "set ls \<subseteq> set (resize_listeners (settle i (onResize i w)))"
    using Cons.prems(2) by (simp add: onResize_frame)
  show ?case
    using b Cons.IH[OF 1 2] by simp
qed

lemma wired_frame:
  assumes "wired w"
  shows "wired (step (Frame h) w)"
proof (cases "map_of (raf_pending w) h")
  case None
  then show ?thesis using assms by simp
next
  case (Some i)
  let ?w1 = "w\<lparr>raf_pending := filter (\<lambda>p. fst p \<noteq> h) (raf_pending w)\<rparr>"
  have "(h, i) \<in> set (raf_pending w)"
    using Some by (rule map_of_SomeD)
  then have "i \<in> set (resize_listeners w @ timers w @ map snd (raf_pending w))"
    by force
  then have b: "i < length (sessions w)" "built (sessions w ! i)"
    using assms unfolding wired_def list_all_iff by blast+
  have "wired ?w1"
    using assms by (rule wired_cong) auto
  then have "wired (settle i (animate i ?w1))"
    using b by (intro wired_animate) simp_all
  then show ?thesis
    using Some b by (simp add: Let_def)
qed

lemma wired_timeout:
  assumes "wired w"
  shows "wired (step (Timeout i) w)"
proof (cases "i \<in> set (timers w) \<and> i < length (sessions w)")
  case False
  then show ?thesis using assms by auto
next
  case True
  let ?w1 = "w\<lparr>timers := remove1 i (timers w)\<rparr>"
  have "i \<in> set (resize_listeners w @ timers w @ map snd (raf_pending w))"
    using True by simp
  then have b: "built (sessions w ! i)"
    using assms unfolding wired_def list_all_iff by blast
  have "wired ?w1"
    using assms by (rule wired_cong) (use set_remove1_subset[of i "timers w"] in auto)
  then have "wired (settle i (onResize i ?w1))"
    using b True by (intro wired_onResize) simp_all
  then show ?thesis
    using True by (simp add: Let_def)
qed

lemma wired_step:
  assumes "wired w"
  shows "wired (step e w)"
proof (cases e)
  case (Frame h)
  then show ?thesis using assms wired_frame by simp
next
  case (Timeout i)
  then show ?thesis using assms wired_timeout by simp
next
  case Resize
  then show ?thesis
    using assms wired_fold_resize[of w "resize_listeners w"] by simp
qed (use assms in \<open>simp_all add: wired_useEffect wired_cleanup wired_script_loaded
       wired_source_ready wired_callbacks\<close>)

lemma wired_run: "wired w \<Longrightarrow> wired (run evs w)"
  by (induction evs arbitrary: w) (simp_all add: wired_step)

lemma wired_world0: "wired (world0 sr det)"
  by (simp add: wired_def world0_def)

lemma no_callback_throws: "\<not> list_ex is_uncaught (trace (run evs (world0 sr det)))"
  using wired_run[OF wired_world0, of evs sr det] by (simp add: wired_def)

lemma listeners_built:
  assumes "i \<in> set (resize_listeners (run evs (world0 sr det)))"
  shows "i < length (sessions (run evs (world0 sr det)))
         \<and> built (sessions (run evs (world0 sr det)) ! i)"
proof -
  have "i \<in> set (resize_listeners (run evs (world0 sr det)) @ timers (run evs (world0 sr det))
                  @ map snd (raf_pending (run evs (world0 sr det))))"
    using assms by simp
  then show ?thesis
    using wired_run[OF wired_world0, of evs sr det] unfolding wired_def list_all_iff by blast
qed


section \<open>What an event adds to the trace\<close>

lemma animate_quiet:
  "\<exists>new. trace (settle i (animate i w)) = trace w @ new \<and> list_all quiet new"
  by (auto simp: animate_def Let_def emit_def upd_session_def settle_def loop_defs quiet_def
        split: option.splits)

lemma onResize_quiet:
  "\<exists>new. trace (settle i (onResize i w)) = trace w @ new \<and> list_all quiet new"
  by (auto simp: onResize_def Let_def emit_def settle_def quiet_def split: option.splits)

lemma fold_resize_quiet:
  "\<exists>new. trace (fold (\<lambda>i w'. if i < length (sessions w') then settle i (onResize i w') else w') ls w)
           = trace w @ new \<and> list_all quiet new"
proof (induction ls arbitrary: w)
  case Nil
  then show ?case by simp
next
  case (Cons i ls)
  let ?w1 = "if i < length (sessions w) then settle i (onResize i w) else w"
  obtain n1 where n1: "trace ?w1 = trace w @ n1" "list_all quiet n1"
    using onResize_quiet[of i w] by (cases "i < length (sessions w)") auto
  obtain n2 where n2: "trace (fold (\<lambda>i w'. if i < length (sessions w') then settle i (onResize i w') else w') ls ?w1)
           = trace ?w1 @ n2" "list_all quiet n2"
    using Cons.IH[of ?w1] by blast
  have "trace (fold (\<lambda>i w'. if i < length (sessions w') then settle i (onResize i w') else w') (i # ls) w)
          = trace w @ (n1 @ n2)"
    using n1 n2 by simp
  moreover have "list_all quiet (n1 @ n2)"
    using n1 n2 by simp
  ultimately show ?case by blast
qed

lemma cleanup_quiet:
  "\<exists>new. trace (settle i (cleanup i w)) = trace w @ new \<and> list_all quiet new"
  by (auto simp: cleanup_defs emit_def upd_session_def settle_def Let_def list_all_iff quiet_def
        split: option.splits)

lemma callbacks_quiet:
  "\<exists>new. trace (script_failed i w) = trace w @ new \<and> list_all quiet new"
  "\<exists>new. trace (source_ready i w) = trace w @ new \<and> list_all quiet new"
  "\<exists>new. trace (context_ready i w) = trace w @ new \<and> list_all quiet new"
  "\<exists>new. trace (model_loaded i w) = trace w @ new \<and> list_all quiet new"
  "\<exists>new. trace (model_failed i w) = trace w @ new \<and> list_all quiet new"
  by (auto simp: script_failed_def source_ready_def context_ready_def model_loaded_def
        model_failed_def emit_def upd_session_def quiet_def split: suspension.splits)

lemma initAR_resume_emits:
  "\<exists>new. trace (initAR_resume i w) = trace w @ new \<and>
     (list_all quiet new
      \<or> isMounted (sessions w ! i) \<and> canvasRef w \<noteq> None \<and> entry_points_ok (THREEx w)
        \<and> (\<exists>n. new = SetAttribute i # construct_actions (lib_sync_ready w) i @ n
                \<and> list_all quiet n))"
proof -
  let ?w1 = "upd_session i (\<lambda>s. s\<lparr>awaiting := Returned\<rparr>) w"
  let ?w2 = "construct i (mark_initialized i ?w1)"
  obtain n where n: "trace (settle i (animate i ?w2)) = trace ?w2 @ n" "list_all quiet n"
    using animate_quiet by blast
  have t2: "trace ?w2 = trace w @ SetAttribute i # construct_actions (lib_sync_ready w) i"
    by (simp add: construct_trace mark_initialized_def emit_def upd_session_def
          construct_actions_def)
  have full: "trace (settle i (animate i ?w2))
                = trace w @ SetAttribute i # construct_actions (lib_sync_ready w) i @ n"
    using n(1) t2 by simp
  have nil: "list_all quiet []"
    by simp
  show ?thesis
  proof (cases "\<not> isMounted (sessions w ! i) \<or> canvasRef w = None")
    case True
    then have "trace (initAR_resume i w) = trace w @ []"
      by (auto simp: initAR_resume_def Let_def upd_session_def)
    then show ?thesis using nil by blast
  next
    case False
    then obtain a where a: "isMounted (sessions w ! i)" "canvasRef w = Some a"
      by auto
    show ?thesis
    proof (cases "entry_points_ok (THREEx w)")
      case False
      then have "trace (initAR_resume i w) = trace w @ [ConsoleError i EntryPointsMissing]"
        by (simp add: initAR_resume_def Let_def upd_session_def emit_def a)
      moreover have "list_all quiet [ConsoleError i EntryPointsMissing]"
        by (simp add: quiet_def)
      ultimately show ?thesis by blast
    next
      case True
      have "trace (initAR_resume i w)
              = trace w @ SetAttribute i # construct_actions (lib_sync_ready w) i @ n"
        by (simp add: initAR_resume_def Let_def full a True)
      then show ?thesis
        using n(2) True a by auto
    qed
  qed
qed

lemma step_emits:
  "\<exists>new. trace (step e w) = trace w @ new \<and>
     (list_all quiet new
      \<or> e = Mount \<and> new = [AppendScript (length (sessions w)) ArJs]
      \<or> (\<exists>i g. e = ScriptLoaded i g \<and> i < length (sessions w)
             \<and> awaiting (sessions w ! i) = AwaitScript1 \<and> new = [AppendScript i ArThreexJs])
      \<or> (\<exists>i g n. e = ScriptLoaded i g \<and> i < length (sessions w)
             \<and> awaiting (sessions w ! i) = AwaitScript2 \<and> isMounted (sessions w ! i)
             \<and> canvasRef w \<noteq> None \<and> entry_points_ok g
             \<and> new = SetAttribute i # construct_actions (lib_sync_ready w) i @ n
             \<and> list_all quiet n))"
proof (cases e)
  case Mount
  have "trace (useEffect w) = trace w @ [] \<or> trace (useEffect w) = trace w @ [AppendScript (length (sessions w)) ArJs]"
    by (simp add: useEffect_def loadScript_def emit_def split: option.splits)
  moreover have "list_all quiet []" by simp
  ultimately show ?thesis using Mount by auto
next
  case (Unmount i)
  then show ?thesis
    using cleanup_quiet[of i w] by (cases "i < length (sessions w)") auto
next
  case (ScriptLoaded i g)
  show ?thesis
  proof (cases "i < length (sessions w) \<and> awaiting (sessions w ! i) \<noteq> Returned")
    case False
    then have "trace (step e w) = trace w @ []" using ScriptLoaded by auto
    moreover have "list_all quiet []" by simp
    ultimately show ?thesis by blast
  next
    case True
    show ?thesis
    proof (cases "awaiting (sessions w ! i)")
      case AwaitScript1
      then have "trace (step e w) = trace w @ [AppendScript i ArThreexJs]"
        using True ScriptLoaded by (simp add: script_loaded_def loadScript_def emit_def upd_session_def)
      then show ?thesis using True ScriptLoaded AwaitScript1 by blast
    next
      case AwaitScript2
      then have eq: "step e w = initAR_resume i (w\<lparr>THREEx := g\<rparr>)"
        using True ScriptLoaded by (simp add: script_loaded_def)
      show ?thesis
        using initAR_resume_emits[of i "w\<lparr>THREEx := g\<rparr>"] True ScriptLoaded AwaitScript2
        unfolding eq by auto
    next
      case Returned
      then show ?thesis using True by simp
    qed
  qed
next
  case (ScriptFailed i)
  then show ?thesis
    using callbacks_quiet(1)[of i w] by (cases "i < length (sessions w)") auto
next
  case (SourceReady i)
  then show ?thesis
    using callbacks_quiet(2)[of i w]
    by (cases "i < length (sessions w) \<and> source_pending (sessions w ! i)") auto
next
  case (ContextReady i)
  then show ?thesis
    using callbacks_quiet(3)[of i w]
    by (cases "i < length (sessions w) \<and> context_pending (sessions w ! i)") auto
next
  case (ModelLoaded i)
  then show ?thesis
    using callbacks_quiet(4)[of i w]
    by (cases "i < length (sessions w) \<and> loader_pending (sessions w ! i)") auto
next
  case (ModelFailed i)
  then show ?thesis
    using callbacks_quiet(5)[of i w]
    by (cases "i < length (sessions w) \<and> loader_pending (sessions w ! i)") auto
next
  case (Frame h)
  show ?thesis
  proof (cases "map_of (raf_pending w) h")
    case None
    then show ?thesis using Frame by auto
  next
    case (Some i)
    then show ?thesis
      using Frame animate_quiet[of i "w\<lparr>raf_pending := filter (\<lambda>p. fst p \<noteq> h) (raf_pending w)\<rparr>"]
      by (cases "i < length (sessions w)") (auto simp: Let_def)
  qed
next
  case (Timeout i)
  then show ?thesis
    using onResize_quiet[of i "w\<lparr>timers := remove1 i (timers w)\<rparr>"]
    by (cases "i \<in> set (timers w) \<and> i < length (sessions w)") (auto simp: Let_def)
next
  case Resize
  then show ?thesis
    using fold_resize_quiet[of "resize_listeners w" w] by auto
qed

lemma step_trace: "trace (step e w) = trace w @ emitted e w"
  using step_emits[of e w] by (auto simp: emitted_def)

lemma emitted_cases:
  "list_all quiet (emitted e w)
   \<or> e = Mount \<and> emitted e w = [AppendScript (length (sessions w)) ArJs]
   \<or> (\<exists>i g. e = ScriptLoaded i g \<and> i < length (sessions w)
          \<and> awaiting (sessions w ! i) = AwaitScript1 \<and> emitted e w = [AppendScript i ArThreexJs])
   \<or> (\<exists>i g n. e = ScriptLoaded i g \<and> i < length (sessions w)
          \<and> awaiting (sessions w ! i) = AwaitScript2 \<and> isMounted (sessions w ! i)
          \<and> canvasRef w \<noteq> None \<and> entry_points_ok g
          \<and> emitted e w = SetAttribute i # construct_actions (lib_sync_ready w) i @ n
          \<and> list_all quiet n)"
proof -
  obtain new where new: "trace (step e w) = trace w @ new"
    and c: "list_all quiet new
      \<or> e = Mount \<and> new = [AppendScript (length (sessions w)) ArJs]
      \<or> (\<exists>i g. e = ScriptLoaded i g \<and> i < length (sessions w)
             \<and> awaiting (sessions w ! i) = AwaitScript1 \<and> new = [AppendScript i ArThreexJs])
      \<or> (\<exists>i g n. e = ScriptLoaded i g \<and> i < length (sessions w)
             \<and> awaiting (sessions w ! i) = AwaitScript2 \<and> isMounted (sessions w ! i)
             \<and> canvasRef w \<noteq> None \<and> entry_points_ok g
             \<and> new = SetAttribute i # construct_actions (lib_sync_ready w) i @ n
             \<and> list_all quiet n)"
    using step_emits[of e w] by blast
  have "emitted e w = new"
    using new by (simp add: emitted_def)
  then show ?thesis
    using c by simp
qed

lemma quiet_no_mark: "list_all quiet as \<Longrightarrow> SetAttribute i \<notin> set as \<and> AppendScript i sc \<notin> set as"
  by (auto simp: list_all_iff quiet_def)

lemma construct_actions_set:
  "SetAttribute i \<notin> set (construct_actions sr j)"
  "AppendScript i sc \<notin> set (construct_actions sr j)"
  "set (steps_b_to_j j) \<subseteq> set (construct_actions sr j)"
  by (auto simp: construct_actions_def steps_b_to_j_def)


section \<open>When the surface is marked\<close>

text \<open>
  C4, as stated, fails: in the run below the first session marks the surface before any of
  its steps (b) to (j) has happened.
\<close>

theorem marked_after_steps_counterexample:
  "\<not> marked_after_steps 0 (trace (run load_ok (world0 False detect_always)))"
  by code_simp

text \<open>
  C4, amended. An event marks the surface for session \<open>i\<close> only if it is the load of the
  second script of \<open>i\<close> (the first has loaded before), the session is mounted and the three
  entry points are there; the mark is then the first action of that turn and all of the steps
  (b) to (j) follow it in the same turn. A failed script load never marks the surface, nor
  does a load that leaves an entry point missing.
\<close>

theorem marker_set_before_construction:
  "(SetAttribute i \<in> set (emitted e w) \<longrightarrow>
      (\<exists>g. e = ScriptLoaded i g \<and> entry_points_ok g)
      \<and> i < length (sessions w) \<and> awaiting (sessions w ! i) = AwaitScript2
      \<and> isMounted (sessions w ! i)
      \<and> (\<exists>rest. emitted e w = SetAttribute i # rest \<and> set (steps_b_to_j i) \<subseteq> set rest))
   \<and> SetAttribute i \<notin> set (emitted (ScriptFailed j) w)
   \<and> (\<not> entry_points_ok g \<longrightarrow> SetAttribute i \<notin> set (emitted (ScriptLoaded j g) w))"
proof -
  have main: "(\<exists>g. e = ScriptLoaded i g \<and> entry_points_ok g)
      \<and> i < length (sessions w) \<and> awaiting (sessions w ! i) = AwaitScript2
      \<and> isMounted (sessions w ! i)
      \<and> (\<exists>rest. emitted e w = SetAttribute i # rest \<and> set (steps_b_to_j i) \<subseteq> set rest)"
    if m: "SetAttribute i \<in> set (emitted e w)" for e i
  proof -
    consider (q) "list_all quiet (emitted e w)"
      | (mount) "emitted e w = [AppendScript (length (sessions w)) ArJs]"
      | (first) k where "emitted e w = [AppendScript k ArThreexJs]"
      | (second) k g n where "e = ScriptLoaded k g" "k < length (sessions w)"
          "awaiting (sessions w ! k) = AwaitScript2" "isMounted (sessions w ! k)"
          "entry_points_ok g"
          "emitted e w = SetAttribute k # construct_actions (lib_sync_ready w) k @ n"
          "list_all quiet n"
      using emitted_cases[of e w] by blast
    then show ?thesis
    proof cases
      case q
      then show ?thesis using m quiet_no_mark by blast
    next
      case mount
      then show ?thesis using m by simp
    next
      case (first k)
      then show ?thesis using m by simp
    next
      case (second k g n)
      have "k = i"
        using m second(6,7) construct_actions_set(1) quiet_no_mark by auto
      moreover have "set (steps_b_to_j k) \<subseteq> set (construct_actions (lib_sync_ready w) k @ n)"
        using construct_actions_set(3)[of k "lib_sync_ready w"] by auto
      ultimately show ?thesis
        using second by blast
    qed
  qed
  have "SetAttribute i \<notin> set (emitted (ScriptFailed j) w)"
    using main[of i "ScriptFailed j"] by blast
  moreover have "SetAttribute i \<notin> set (emitted (ScriptLoaded j g) w)" if "\<not> entry_points_ok g"
    using main[of i "ScriptLoaded j g"] that by blast
  ultimately show ?thesis
    using main[of i e] by blast
qed


theorem marker_set_before_construction_witness:
  "SetAttribute 0 \<in> set (emitted (ScriptLoaded 0 full_threex)
                           (run [Mount, ScriptLoaded 0 None] (world0 False detect_always)))
   \<and> awaiting (sessions (run [Mount, ScriptLoaded 0 None] (world0 False detect_always)) ! 0)
       = AwaitScript2
   \<and> \<not> entry_points_ok None
   \<and> SetAttribute 0 \<notin> set (emitted (ScriptLoaded 0 None)
                           (run [Mount, ScriptLoaded 0 None] (world0 False detect_always)))"
proof -
  let ?w = "run [Mount, ScriptLoaded 0 None] (world0 False detect_always)"
  have h: "SetAttribute 0 \<in> set (emitted (ScriptLoaded 0 full_threex) ?w)"
    by code_simp
  have k: "\<not> entry_points_ok None"
    by (simp add: entry_points_ok_def)
  show ?thesis
    using h k marker_set_before_construction [of 0 "ScriptLoaded 0 full_threex" ?w 0 None]
    by blast
qed


section \<open>The two scripts load in sequence\<close>

lemma keeps_returned_refl: "keeps_returned w w"
  by (simp add: keeps_returned_def)

lemma keeps_returned_trans:
  "keeps_returned w w' \<Longrightarrow> keeps_returned w' w'' \<Longrightarrow> keeps_returned w w''"
  by (auto simp: keeps_returned_def)

lemma keeps_returned_cong:
  "sessions w'' = sessions w' \<Longrightarrow> keeps_returned w w' \<Longrightarrow> keeps_returned w w''"
  by (simp add: keeps_returned_def)

lemma keeps_returned_upd:
  "(\<And>s. awaiting s = Returned \<Longrightarrow> awaiting (f s) = Returned) \<Longrightarrow>
   keeps_returned w (upd_session i f w)"
  by (auto simp: keeps_returned_def upd_session_def nth_upd)

lemma keeps_returned_animate: "keeps_returned w (settle i (animate i w))"
  by (auto simp: keeps_returned_def animate_def Let_def emit_def upd_session_def settle_def
        loop_defs nth_upd split: option.splits)

lemma keeps_returned_construct: "keeps_returned w (construct i w)"
  by (cases "i < length (sessions w)")
     (auto simp: keeps_returned_def construct_sessions construct_frame nth_upd
        construct_defs emit_def upd_session_def Let_def)

lemma keeps_returned_initAR_resume: "keeps_returned w (initAR_resume i w)"
proof -
  let ?w1 = "upd_session i (\<lambda>s. s\<lparr>awaiting := Returned\<rparr>) w"
  let ?w2 = "construct i (mark_initialized i ?w1)"
  have 1: "keeps_returned w ?w1"
    by (rule keeps_returned_upd) simp
  have 2: "keeps_returned w (mark_initialized i ?w1)"
    using _ 1 by (rule keeps_returned_cong) (simp add: mark_initialized_def emit_def)
  have 3: "keeps_returned w ?w2"
    using 2 keeps_returned_construct by (rule keeps_returned_trans)
  have 4: "keeps_returned w (settle i (animate i ?w2))"
    using 3 keeps_returned_animate by (rule keeps_returned_trans)
  have 5: "keeps_returned w (emit [ConsoleError i EntryPointsMissing] ?w1)"
    using _ 1 by (rule keeps_returned_cong) (simp add: emit_def)
  show ?thesis
    using 1 4 5 by (simp add: initAR_resume_def Let_def)
qed

lemma keeps_returned_script_loaded:
  "keeps_returned w (script_loaded i (w\<lparr>THREEx := g\<rparr>))"
proof -
  let ?w = "w\<lparr>THREEx := g\<rparr>"
  have 0: "keeps_returned w ?w"
    by (simp add: keeps_returned_def)
  have 1: "keeps_returned w (initAR_resume i ?w)"
    using 0 keeps_returned_initAR_resume by (rule keeps_returned_trans)
  have 2: "keeps_returned w (loadScript i ArThreexJs
              (upd_session i (\<lambda>s. s\<lparr>awaiting := AwaitScript2\<rparr>) ?w))"
    if "awaiting (sessions w ! i) = AwaitScript1"
    using that by (auto simp: keeps_returned_def loadScript_def emit_def upd_session_def nth_upd)
  show ?thesis
    using 0 1 2 by (simp add: script_loaded_def split: suspension.splits)
qed

lemma keeps_returned_cleanup: "keeps_returned w (settle i (cleanup i w))"
  by (auto simp: keeps_returned_def cleanup_defs emit_def upd_session_def settle_def Let_def
        nth_upd split: option.splits)

lemma keeps_returned_callbacks:
  "keeps_returned w (useEffect w)"
  "keeps_returned w (script_failed i w)"
  "keeps_returned w (source_ready i w)"
  "keeps_returned w (context_ready i w)"
  "keeps_returned w (model_loaded i w)"
  "keeps_returned w (model_failed i w)"
  by (auto simp: keeps_returned_def useEffect_def loadScript_def script_failed_def
        source_ready_def context_ready_def model_loaded_def model_failed_def emit_def
        upd_session_def nth_upd nth_append split: suspension.splits option.splits)

lemma keeps_returned_step: "keeps_returned w (step e w)"
proof (cases e)
  case (Frame h)
  then show ?thesis
    using keeps_returned_animate[of "w\<lparr>raf_pending := filter (\<lambda>p. fst p \<noteq> h) (raf_pending w)\<rparr>"]
    by (auto simp: Let_def keeps_returned_def split: option.splits)
next
  case (Timeout i)
  then show ?thesis
    by (simp add: Let_def keeps_returned_def onResize_frame)
next
  case Resize
  then show ?thesis
    by (simp add: keeps_returned_def fold_resize_frame)
qed (simp_all add: keeps_returned_refl keeps_returned_cleanup keeps_returned_script_loaded
       keeps_returned_callbacks)

lemma returned_step_foreign:
  assumes "i < length (sessions w)" "awaiting (sessions w ! i) = Returned"
  shows "\<not> list_ex (initializes i) (emitted e w)"
proof -
  have qn: "\<not> list_ex (initializes i) as" if "list_all quiet as" for as
    using that by (auto simp: list_all_iff list_ex_iff quiet_def initializes_def)
  have c: "\<not> list_ex (initializes i) (construct_actions sr k)" if "k \<noteq> i" for sr k
    using that by (auto simp: construct_actions_def initializes_def)
  consider (q) "list_all quiet (emitted e w)"
    | (mount) "emitted e w = [AppendScript (length (sessions w)) ArJs]"
    | (first) k where "awaiting (sessions w ! k) = AwaitScript1"
        "emitted e w = [AppendScript k ArThreexJs]"
    | (second) k n where "awaiting (sessions w ! k) = AwaitScript2"
        "emitted e w = SetAttribute k # construct_actions (lib_sync_ready w) k @ n"
        "list_all quiet n"
    using emitted_cases[of e w] by blast
  then show ?thesis
  proof cases
    case q
    then show ?thesis by (rule qn)
  next
    case mount
    then show ?thesis using assms(1) by (simp add: initializes_def)
  next
    case (first k)
    then have "k \<noteq> i" using assms(2) by auto
    then show ?thesis using first by (simp add: initializes_def)
  next
    case (second k n)
    then have "k \<noteq> i" using assms(2) by auto
    then show ?thesis
      using second c[of k] qn[of n] by (simp add: initializes_def)
  qed
qed

lemma returned_forever:
  assumes "i < length (sessions w)" "awaiting (sessions w ! i) = Returned"
  shows "i < length (sessions (run evs w)) \<and> awaiting (sessions (run evs w) ! i) = Returned
         \<and> (\<exists>new. trace (run evs w) = trace w @ new \<and> \<not> list_ex (initializes i) new)"
  using assms
proof (induction evs arbitrary: w)
  case Nil
  then show ?case by simp
next
  case (Cons e es)
  have k: "i < length (sessions (step e w))" "awaiting (sessions (step e w) ! i) = Returned"
    using keeps_returned_step[of w e] Cons.prems by (auto simp: keeps_returned_def)
  obtain new where new: "trace (run es (step e w)) = trace (step e w) @ new"
      "\<not> list_ex (initializes i) new"
      "i < length (sessions (run es (step e w)))"
      "awaiting (sessions (run es (step e w)) ! i) = Returned"
    using Cons.IH[OF k] by blast
  have "trace (run (e # es) w) = trace w @ (emitted e w @ new)"
    using new(1) step_trace[of e w] by simp
  moreover have "\<not> list_ex (initializes i) (emitted e w @ new)"
    using new(2) returned_step_foreign[OF Cons.prems, of e] by simp
  ultimately show ?case
    using new(3,4) by auto
qed

text \<open>
  C8. The second script of a session is requested only in the turn in which the \<open>onload\<close> of
  its first script fires. When the first script fails instead, the error is logged, \<open>initAR\<close>
  returns, and whatever happens later the session performs no initialization action: no
  script request, no marking of the surface, none of the steps (b) to (j).
\<close>

theorem scripts_load_in_sequence:
  "(AppendScript i ArThreexJs \<in> set (emitted e w) \<longrightarrow>
      (\<exists>g. e = ScriptLoaded i g) \<and> i < length (sessions w)
      \<and> awaiting (sessions w ! i) = AwaitScript1)
   \<and> (i < length (sessions w) \<and> awaiting (sessions w ! i) = AwaitScript1 \<longrightarrow>
        emitted (ScriptFailed i) w = [ConsoleError i (ScriptLoadError ArJs)]
        \<and> awaiting (sessions (run evs (step (ScriptFailed i) w)) ! i) = Returned
        \<and> \<not> list_ex (initializes i)
              (drop (length (trace (step (ScriptFailed i) w)))
                 (trace (run evs (step (ScriptFailed i) w)))))"
proof -
  have one: "(\<exists>g. e = ScriptLoaded i g) \<and> i < length (sessions w)
      \<and> awaiting (sessions w ! i) = AwaitScript1"
    if m: "AppendScript i ArThreexJs \<in> set (emitted e w)"
  proof -
    consider (q) "list_all quiet (emitted e w)"
      | (mount) "emitted e w = [AppendScript (length (sessions w)) ArJs]"
      | (first) k g where "e = ScriptLoaded k g" "k < length (sessions w)"
          "awaiting (sessions w ! k) = AwaitScript1" "emitted e w = [AppendScript k ArThreexJs]"
      | (second) k n where
          "emitted e w = SetAttribute k # construct_actions (lib_sync_ready w) k @ n"
          "list_all quiet n"
      using emitted_cases[of e w] by blast
    then show ?thesis
    proof cases
      case q
      then show ?thesis using m quiet_no_mark by blast
    next
      case mount
      then show ?thesis using m by simp
    next
      case (first k g)
      then show ?thesis using m by simp
    next
      case (second k n)
      then show ?thesis
        using m construct_actions_set(2) quiet_no_mark by auto
    qed
  qed
  have two: "emitted (ScriptFailed i) w = [ConsoleError i (ScriptLoadError ArJs)]
        \<and> awaiting (sessions (run evs (step (ScriptFailed i) w)) ! i) = Returned
        \<and> \<not> list_ex (initializes i)
              (drop (length (trace (step (ScriptFailed i) w)))
                 (trace (run evs (step (ScriptFailed i) w))))"
    if a: "i < length (sessions w)" "awaiting (sessions w ! i) = AwaitScript1"
  proof -
    let ?w' = "step (ScriptFailed i) w"
    have e: "emitted (ScriptFailed i) w = [ConsoleError i (ScriptLoadError ArJs)]"
      using a by (simp add: emitted_def script_failed_def emit_def upd_session_def)
    have r: "i < length (sessions ?w')" "awaiting (sessions ?w' ! i) = Returned"
      using a by (simp_all add: script_failed_def emit_def upd_session_def)
    obtain new where "trace (run evs ?w') = trace ?w' @ new" "\<not> list_ex (initializes i) new"
        "awaiting (sessions (run evs ?w') ! i) = Returned"
      using returned_forever[OF r, of evs] by blast
    then show ?thesis
      using e by simp
  qed
  show ?thesis
    using one two by blast
qed

theorem scripts_load_in_sequence_witness:
  "AppendScript 0 ArThreexJs
     \<in> set (emitted (ScriptLoaded 0 full_threex) (run [Mount] (world0 False detect_always)))
   \<and> 0 < length (sessions (run [Mount] (world0 False detect_always)))
   \<and> awaiting (sessions (run [Mount] (world0 False detect_always)) ! 0) = AwaitScript1
   \<and> emitted (ScriptFailed 0) (run [Mount] (world0 False detect_always))
       = [ConsoleError 0 (ScriptLoadError ArJs)]
   \<and> awaiting (sessions (run [ScriptLoaded 0 full_threex, ScriptLoaded 0 full_threex]
                            (step (ScriptFailed 0) (run [Mount] (world0 False detect_always)))) ! 0)
       = Returned"
proof -
  let ?w = "run [Mount] (world0 False detect_always)"
  have h: "AppendScript 0 ArThreexJs \<in> set (emitted (ScriptLoaded 0 full_threex) ?w)"
    by code_simp
  have k: "0 < length (sessions ?w) \<and> awaiting (sessions ?w ! 0) = AwaitScript1"
    by code_simp
  show ?thesis
    using h k scripts_load_in_sequence [of 0 "ScriptLoaded 0 full_threex" ?w
        "[ScriptLoaded 0 full_threex, ScriptLoaded 0 full_threex]"]
    by blast
qed


section \<open>One session per surface\<close>





















section \<open>Loads that resolve after unmount\<close>

text \<open>
  C5. Only the continuation after the script loads checks \<open>isMounted\<close>. In the run below the
  first session is unmounted right after its initialization; the model load, the context
  initialisation and the camera request resolve afterwards. The session is unmounted, and yet
  the model is parented under its anchor group, the projection matrix is copied into its
  camera, its camera stream is live and its resize handler runs.
\<close>

theorem loads_after_unmount_touch_session:
  "\<not> isMounted (sessions (run (load_ok @ [Unmount 0, ModelLoaded 0, ContextReady 0, SourceReady 0, Timeout 0])
                             (world0 False detect_always)) ! 0)
   \<and> markerRoot (sessions (run (load_ok @ [Unmount 0, ModelLoaded 0, ContextReady 0, SourceReady 0, Timeout 0])
                             (world0 False detect_always)) ! 0) = Some 1
   \<and> live_tracks (sessions (run (load_ok @ [Unmount 0, ModelLoaded 0, ContextReady 0, SourceReady 0, Timeout 0])
                             (world0 False detect_always)) ! 0) = 1
   \<and> trace (run (load_ok @ [Unmount 0, ModelLoaded 0, ContextReady 0, SourceReady 0, Timeout 0])
                             (world0 False detect_always))
     = trace (run load_ok (world0 False detect_always))
       @ [CancelFrame 0 None, RendererDispose 0, RemoveAttribute 0, AddModel 0, CopyProjection 0,
          CameraAcquired 0, SetTimeout 0, ResizeSource 0, CopySizeToRenderer 0,
          CopySizeToTrackingCanvas 0]"
  by code_simp


section \<open>The render loop when the source becomes ready later\<close>

text \<open>
  \<open>animate\<close> is called once, at the end of the initialization, and otherwise only by the frame
  callback it has scheduled itself. When the tracking source is not ready at that first call,
  no frame is ever scheduled and nothing is ever rendered.
\<close>

lemma animate_not_ready:
  assumes "arToolkitSource (sessions w ! i) = Some src" "\<not> ready src"
  shows "settle i (animate i w) = w"
  using assms by (simp add: animate_def settle_def Let_def)

lemma initAR_resume_idle:
  assumes "idle w" "i < length (sessions w)"
  shows "idle (initAR_resume i w)"
proof -
  let ?w1 = "upd_session i (\<lambda>s. s\<lparr>awaiting := Returned\<rparr>) w"
  let ?w2 = "construct i (mark_initialized i ?w1)"
  have len: "i < length (sessions (mark_initialized i ?w1))"
    using assms(2) by (simp add: mark_initialized_def emit_def upd_session_def)
  have lib: "\<not> lib_sync_ready (mark_initialized i ?w1)"
    using assms(1) by (simp add: idle_def mark_initialized_def emit_def upd_session_def)
  have "settle i (animate i ?w2) = ?w2"
    using len lib construct_sessions[OF len]
    by (intro animate_not_ready[where src = "\<lparr>ready = False, domElement = Some \<lparr>srcObject = None\<rparr>\<rparr>"])
       simp_all
  moreover have "idle ?w2"
    using assms(1)
    by (simp add: idle_def construct_frame construct_trace mark_initialized_def emit_def
          upd_session_def)
  moreover have "idle ?w1" "idle (emit [ConsoleError i EntryPointsMissing] ?w1)"
    using assms(1) by (simp_all add: idle_def emit_def upd_session_def)
  ultimately show ?thesis
    by (simp add: initAR_resume_def Let_def)
qed

lemma step_idle:
  assumes "idle w"
  shows "idle (step e w)"
proof (cases e)
  case (ScriptLoaded i g)
  have "idle (w\<lparr>THREEx := g\<rparr>)"
    using assms by (simp add: idle_def)
  then show ?thesis
    using ScriptLoaded assms initAR_resume_idle[of "w\<lparr>THREEx := g\<rparr>" i]
    by (auto simp: script_loaded_def loadScript_def emit_def upd_session_def idle_def
          split: suspension.splits)
next
  case (Unmount i)
  then show ?thesis
    using assms
    by (auto simp: idle_def cleanup_defs emit_def upd_session_def settle_def Let_def list_ex_iff
          split: option.splits)
next
  case (Frame h)
  then show ?thesis
    using assms by (simp add: idle_def)
next
  case (Timeout i)
  then show ?thesis
    using assms
    by (auto simp: idle_def Let_def onResize_def settle_def emit_def split: option.splits)
next
  case Resize
  have "idle (fold (\<lambda>i w'. if i < length (sessions w') then settle i (onResize i w') else w') ls w')"
    if "idle w'" for ls w'
    using that
  proof (induction ls arbitrary: w')
    case Nil
    then show ?case by simp
  next
    case (Cons i ls)
    have "idle (settle i (onResize i w'))"
      using Cons.prems
      by (auto simp: idle_def onResize_def settle_def emit_def Let_def split: option.splits)
    then show ?case
      using Cons by simp
  qed
  then show ?thesis
    using Resize assms by simp
qed (use assms in \<open>auto simp: idle_def useEffect_def loadScript_def script_failed_def
       source_ready_def context_ready_def model_loaded_def model_failed_def emit_def
       upd_session_def split: option.splits suspension.splits\<close>)

lemma run_idle: "idle w \<Longrightarrow> idle (run evs w)"
  by (induction evs arbitrary: w) (simp_all add: step_idle)

lemma render_loop_never_starts:
  "\<not> list_ex is_render (trace (run evs (world0 False det)))
   \<and> raf_pending (run evs (world0 False det)) = []"
proof -
  have "idle (world0 False det)"
    by (simp add: idle_def world0_def)
  then have "idle (run evs (world0 False det))"
    by (rule run_idle)
  then show ?thesis
    by (simp add: idle_def)
qed

text \<open>
  C7. The first session initialises; then the camera becomes ready, the context initialises
  and the model fails to load. The failure is logged and the anchor group stays empty, but no
  frame callback is scheduled and no render call is ever made.
\<close>

theorem render_loop_dead_after_model_failure:
  "source_pending (sessions (run load_ok (world0 False detect_always)) ! 0)
   \<and> trace (run (load_ok @ [SourceReady 0, ContextReady 0, ModelFailed 0, Timeout 0, Frame 1, Frame 2])
             (world0 False detect_always))
     = trace (run load_ok (world0 False detect_always))
       @ [CameraAcquired 0, SetTimeout 0, CopyProjection 0, ConsoleError 0 ModelLoadError,
          ResizeSource 0, CopySizeToRenderer 0,
          CopySizeToTrackingCanvas 0]
   \<and> raf_pending (run (load_ok @ [SourceReady 0, ContextReady 0, ModelFailed 0, Timeout 0, Frame 1, Frame 2])
             (world0 False detect_always)) = []
   \<and> markerRoot (sessions (run (load_ok @ [SourceReady 0, ContextReady 0, ModelFailed 0, Timeout 0, Frame 1, Frame 2])
             (world0 False detect_always)) ! 0) = Some 0"
  by code_simp


end
